theory Spec2Isabelle
  imports Complex_Main
begin

section \<open>Strings\<close>

text \<open>
  A JavaScript string is a sequence of UTF-16 code units; \<open>length\<close> counts code units, as
  \<^verbatim>\<open>.length\<close> does. ASCII text is written \<open>asc ''...''\<close>; a code unit outside ASCII is
  written as its number (U+2705 is 9989, U+2713 is 10003, U+8DEF is 36335).
\<close>

type_synonym cu = nat
type_synonym ustring = "cu list"

definition asc :: "string \<Rightarrow> ustring" where
  "asc s = map of_char s"

text \<open>White space and line terminators of ECMAScript: what \<^verbatim>\<open>\s\<close> matches and \<^verbatim>\<open>trim\<close> strips.\<close>

definition is_space :: "cu \<Rightarrow> bool" where
  "is_space c = (c = 32 \<or> (9 \<le> c \<and> c \<le> 13) \<or> c = 160 \<or> c = 5760 \<or> (8192 \<le> c \<and> c \<le> 8202)
     \<or> c = 8232 \<or> c = 8233 \<or> c = 8239 \<or> c = 8287 \<or> c = 12288 \<or> c = 65279)"

definition is_line_terminator :: "cu \<Rightarrow> bool" where
  "is_line_terminator c = (c = 10 \<or> c = 13 \<or> c = 8232 \<or> c = 8233)"

definition trim :: "ustring \<Rightarrow> ustring" where
  "trim s = rev (dropWhile is_space (rev (dropWhile is_space s)))"

fun startsWith :: "ustring \<Rightarrow> ustring \<Rightarrow> bool" where
  "startsWith s [] = True"
| "startsWith [] (x # xs) = False"
| "startsWith (c # cs) (x # xs) = (c = x \<and> startsWith cs xs)"

fun str_includes :: "ustring \<Rightarrow> ustring \<Rightarrow> bool" where
  "str_includes [] sub = (sub = [])"
| "str_includes (c # cs) sub = (startsWith (c # cs) sub \<or> str_includes cs sub)"

text \<open>\<^verbatim>\<open>s.split("\n")\<close> and \<^verbatim>\<open>lines.join("\n")\<close>, for a one-unit separator.\<close>

fun split_on :: "cu \<Rightarrow> ustring \<Rightarrow> ustring list" where
  "split_on d [] = [[]]"
| "split_on d (c # cs) =
     (if c = d then [] # split_on d cs
      else (case split_on d cs of [] \<Rightarrow> [[c]] | l # ls \<Rightarrow> (c # l) # ls))"

fun join :: "ustring \<Rightarrow> ustring list \<Rightarrow> ustring" where
  "join sep [] = []"
| "join sep [l] = l"
| "join sep (l # l' # ls) = l @ sep @ join sep (l' # ls)"

text \<open>
  \<^verbatim>\<open>toLowerCase\<close>, read here only through \<^verbatim>\<open>includes\<close> of an ASCII keyword. The ASCII
  capitals are lowered; U+0130 becomes \<open>i\<close> followed by U+0307 and U+212A (the Kelvin sign)
  becomes \<open>k\<close>, the only two code points outside ASCII whose lower case holds an ASCII
  letter. Every other code unit outside ASCII lowers to code units outside ASCII and is
  kept as it is, which no ASCII keyword search can tell apart.
\<close>

definition lower_cu :: "cu \<Rightarrow> ustring" where
  "lower_cu c = (if 65 \<le> c \<and> c \<le> 90 then [c + 32]
     else if c = 304 then [105, 775] else if c = 8490 then [107] else [c])"

definition toLowerCase :: "ustring \<Rightarrow> ustring" where
  "toLowerCase s = concat (map lower_cu s)"

text \<open>\<^verbatim>\<open>xs.slice(k)\<close> for an integer \<open>k\<close>: a negative \<open>k\<close> counts from the end.\<close>

definition slice_from :: "int \<Rightarrow> 'a list \<Rightarrow> 'a list" where
  "slice_from k xs =
     (let len = int (length xs);
          from = (if k < 0 then max (len + k) 0 else min k len)
      in drop (nat from) xs)"

section \<open>Regular expressions\<close>

text \<open>
  The backtracking matcher of ECMAScript, for the constructs the program's patterns use.
  A pattern is a syntax tree; \<open>ms r i st\<close> lists, in the matcher's order of preference,
  every state in which \<open>r\<close> can end when started in \<open>st\<close>. A state is the input still
  unread and the text of capture group 1 (every pattern whose captures the program reads
  has exactly one capturing group). The flag \<open>i\<close> is \<^verbatim>\<open>ignoreCase\<close>.

  With \<^verbatim>\<open>ignoreCase\<close> two code units match when their canonical forms agree. The
  patterns of the program hold ASCII code units and two caseless symbols only, and
  ECMAScript never canonicalises a code unit outside ASCII to an ASCII one, so \<open>canonicalize\<close>
  upper-cases the ASCII letters and leaves the rest.
\<close>

definition canonicalize :: "cu \<Rightarrow> cu" where
  "canonicalize c = (if 97 \<le> c \<and> c \<le> 122 then c - 32 else c)"

definition to_lower :: "cu \<Rightarrow> cu" where
  "to_lower c = (if 65 \<le> c \<and> c \<le> 90 then c + 32 else c)"

datatype citem = Ch cu | Rng cu cu | Sp | NSp | Dg | Wd

fun item_has :: "citem \<Rightarrow> cu \<Rightarrow> bool" where
  "item_has (Ch x) c = (x = c)"
| "item_has (Rng lo hi) c = (lo \<le> c \<and> c \<le> hi)"
| "item_has Sp c = is_space c"
| "item_has NSp c = (\<not> is_space c)"
| "item_has Dg c = (48 \<le> c \<and> c \<le> 57)"
| "item_has Wd c = ((48 \<le> c \<and> c \<le> 57) \<or> (65 \<le> c \<and> c \<le> 90) \<or> c = 95 \<or> (97 \<le> c \<and> c \<le> 122))"

definition class_has :: "bool \<Rightarrow> citem list \<Rightarrow> cu \<Rightarrow> bool" where
  "class_has i items c =
     list_ex (\<lambda>it. item_has it c \<or> (i \<and> (item_has it (canonicalize c) \<or> item_has it (to_lower c)))) items"

datatype re =
    Str ustring
  | Cls "citem list"
  | NCls "citem list"
  | Dot
  | Seq re re
  | Alt re re
  | Opt re
  | Star re
  | LazyStar re
  | Plus re
  | Cap re

type_synonym mstate = "ustring \<times> ustring option"

fun strip_lit :: "bool \<Rightarrow> ustring \<Rightarrow> ustring \<Rightarrow> ustring option" where
  "strip_lit i [] s = Some s"
| "strip_lit i (x # xs) [] = None"
| "strip_lit i (x # xs) (c # cs) =
     (if (if i then canonicalize x = canonicalize c else x = c) then strip_lit i xs cs else None)"

text \<open>
  The loops of \<^verbatim>\<open>*\<close> and \<^verbatim>\<open>*?\<close>. An iteration that reads nothing is rejected, as in
  ECMAScript, so each iteration shortens the input and the length of the input bounds
  the number of iterations.
\<close>

fun star_loop :: "(mstate \<Rightarrow> mstate list) \<Rightarrow> nat \<Rightarrow> mstate \<Rightarrow> mstate list" where
  "star_loop f 0 st = [st]"
| "star_loop f (Suc n) st =
     concat (map (\<lambda>st'. if fst st' = fst st then [] else star_loop f n st') (f st)) @ [st]"

fun lazy_loop :: "(mstate \<Rightarrow> mstate list) \<Rightarrow> nat \<Rightarrow> mstate \<Rightarrow> mstate list" where
  "lazy_loop f 0 st = [st]"
| "lazy_loop f (Suc n) st =
     st # concat (map (\<lambda>st'. if fst st' = fst st then [] else lazy_loop f n st') (f st))"

primrec ms :: "re \<Rightarrow> bool \<Rightarrow> mstate \<Rightarrow> mstate list" where
  "ms (Str l) i st = (case strip_lit i l (fst st) of None \<Rightarrow> [] | Some rest \<Rightarrow> [(rest, snd st)])"
| "ms (Cls items) i st = (case fst st of [] \<Rightarrow> [] | c # cs \<Rightarrow>
     if class_has i items c then [(cs, snd st)] else [])"
| "ms (NCls items) i st = (case fst st of [] \<Rightarrow> [] | c # cs \<Rightarrow>
     if class_has i items c then [] else [(cs, snd st)])"
| "ms Dot i st = (case fst st of [] \<Rightarrow> [] | c # cs \<Rightarrow>
     if is_line_terminator c then [] else [(cs, snd st)])"
| "ms (Seq a b) i st = concat (map (ms b i) (ms a i st))"
| "ms (Alt a b) i st = ms a i st @ ms b i st"
| "ms (Opt a) i st = filter (\<lambda>st'. fst st' \<noteq> fst st) (ms a i st) @ [st]"
| "ms (Star a) i st = star_loop (ms a i) (length (fst st)) st"
| "ms (LazyStar a) i st = lazy_loop (ms a i) (length (fst st)) st"
| "ms (Plus a) i st = concat (map (\<lambda>st'. star_loop (ms a i) (length (fst st')) st') (ms a i st))"
| "ms (Cap a) i st =
     map (\<lambda>st'. (fst st', Some (take (length (fst st) - length (fst st')) (fst st)))) (ms a i st)"

text \<open>Pattern syntax: a sequence, an alternation, \<^verbatim>\<open>{n}\<close> and \<^verbatim>\<open>{0,n}\<close>.\<close>

definition str :: "string \<Rightarrow> re" where
  "str s = Str (asc s)"

fun seq :: "re list \<Rightarrow> re" where
  "seq [] = Str []"
| "seq [r] = r"
| "seq (r # r' # rs) = Seq r (seq (r' # rs))"

fun alts :: "re list \<Rightarrow> re" where
  "alts [] = Cls []"
| "alts [r] = r"
| "alts (r # r' # rs) = Alt r (alts (r' # rs))"

primrec rep :: "nat \<Rightarrow> re \<Rightarrow> re" where
  "rep 0 r = Str []"
| "rep (Suc n) r = Seq r (rep n r)"

primrec upto :: "nat \<Rightarrow> re \<Rightarrow> re" where
  "upto 0 r = Str []"
| "upto (Suc n) r = Opt (Seq r (upto n r))"

text \<open>
  A regular expression object: its flag, whether the pattern opens with \<^verbatim>\<open>^\<close> (none of
  the patterns has the multiline flag, so \<^verbatim>\<open>^\<close> is the start of the input), and the rest
  of the pattern.
\<close>

record regexp =
  ignoreCase :: bool
  anchored :: bool
  body :: re

definition rx :: "re \<Rightarrow> regexp" where
  "rx r = \<lparr>ignoreCase = False, anchored = False, body = r\<rparr>"

definition rxi :: "re \<Rightarrow> regexp" where
  "rxi r = \<lparr>ignoreCase = True, anchored = False, body = r\<rparr>"

definition match_here :: "regexp \<Rightarrow> ustring \<Rightarrow> mstate option" where
  "match_here p s = (case ms (body p) (ignoreCase p) (s, None) of [] \<Rightarrow> None | m # _ \<Rightarrow> Some m)"

text \<open>The leftmost match: every start position in turn, the end of the input included.\<close>

fun search :: "regexp \<Rightarrow> ustring \<Rightarrow> mstate option" where
  "search p [] = match_here p []"
| "search p (c # cs) = (case match_here p (c # cs) of None \<Rightarrow> search p cs | Some m \<Rightarrow> Some m)"

definition exec :: "regexp \<Rightarrow> ustring \<Rightarrow> mstate option" where
  "exec p s = (if anchored p then match_here p s else search p s)"

definition test :: "regexp \<Rightarrow> ustring \<Rightarrow> bool" where
  "test p s = (exec p s \<noteq> None)"

text \<open>\<^verbatim>\<open>s.match(p)\<close> read at index 1: \<open>None\<close> when there is no match, \<open>Some None\<close> when the
  group took no part in it.\<close>

definition match_group1 :: "regexp \<Rightarrow> ustring \<Rightarrow> ustring option option" where
  "match_group1 p s = map_option snd (exec p s)"

text \<open>
  \<^verbatim>\<open>s.replace(p, repl)\<close> for a pattern with the global flag and a replacement text without
  \<^verbatim>\<open>$\<close>: each match, left to right, is replaced; after an empty match the next code unit
  is copied.
\<close>

function replaceAll :: "regexp \<Rightarrow> ustring \<Rightarrow> ustring \<Rightarrow> ustring" where
  "replaceAll p repl [] = (case match_here p [] of None \<Rightarrow> [] | Some m \<Rightarrow> repl)"
| "replaceAll p repl (c # cs) =
     (case match_here p (c # cs) of
        None \<Rightarrow> c # replaceAll p repl cs
      | Some m \<Rightarrow>
          if length (fst m) < Suc (length cs) then repl @ replaceAll p repl (fst m)
          else repl @ c # replaceAll p repl cs)"
  by pat_completeness auto
termination
  by (relation "measure (\<lambda>(p, repl, s). length s)") auto

text \<open>
  \<^verbatim>\<open>s.split(p)\<close> for a pattern without capturing groups. \<open>cur\<close> holds, reversed, the piece
  read since the last separator. A separator match that ends where the piece starts is
  skipped.
\<close>

function split_loop :: "regexp \<Rightarrow> ustring \<Rightarrow> ustring \<Rightarrow> ustring list" where
  "split_loop p cur [] = [rev cur]"
| "split_loop p cur (c # cs) =
     (case match_here p (c # cs) of
        None \<Rightarrow> split_loop p (c # cur) cs
      | Some m \<Rightarrow>
          if length (fst m) < Suc (length cs) then rev cur # split_loop p [] (fst m)
          else if cur = [] then split_loop p [c] cs
          else rev cur # split_loop p [c] cs)"
  by pat_completeness auto
termination
  by (relation "measure (\<lambda>(p, cur, s). length s)") auto

definition split_re :: "regexp \<Rightarrow> ustring \<Rightarrow> ustring list" where
  "split_re p s =
     (if s = [] then (case match_here p [] of None \<Rightarrow> [[]] | Some m \<Rightarrow> [])
      else split_loop p [] s)"

section \<open>The blocker detector\<close>

subsection \<open>Data\<close>

text \<open>
  Modelled from the spec: \<^verbatim>\<open>SessionEvent\<close> and \<^verbatim>\<open>BlockerInfo\<close> are declared in \<^verbatim>\<open>types.ts\<close>,
  which the sources do not include. The spec gives an event a type (\<^verbatim>\<open>assistant_message\<close> or
  another), an optional \<^verbatim>\<open>text\<close> and a timestamp, and a \<^verbatim>\<open>BlockerInfo\<close> the four fields
  below. \<^verbatim>\<open>extractedContext\<close> is an object filled by assignment: an association list in the
  order of first assignment.
\<close>

datatype event_type = AssistantMessage | OtherEvent

record SessionEvent =
  etype :: event_type
  etext :: "ustring option"
  timestamp :: nat

record BlockerInfo =
  reason :: ustring
  lastMessage :: ustring
  matchedPatterns :: "ustring list"
  extractedContext :: "(ustring \<times> ustring) list option"

fun assign :: "ustring \<Rightarrow> ustring \<Rightarrow> (ustring \<times> ustring) list \<Rightarrow> (ustring \<times> ustring) list" where
  "assign k v [] = [(k, v)]"
| "assign k v ((k', v') # kvs) = (if k = k' then (k, v) # kvs else (k', v') # assign k v kvs)"

subsection \<open>BLOCKER\_PATTERNS\<close>

text \<open>Each pattern is paired with its \<^verbatim>\<open>source\<close>, which \<^verbatim>\<open>detectBlocker\<close> reports.\<close>

record pattern_entry =
  category :: ustring
  patterns :: "(ustring \<times> regexp) list"
  extractors :: "(ustring \<times> regexp) list option"

definition apostrophes :: re where
  "apostrophes = Cls [Ch 39, Ch 39]"

definition waiting_for_user :: pattern_entry where
  "waiting_for_user = \<lparr>
     category = asc ''waiting_for_user'',
     patterns = [
       (asc ''let me know when'', rxi (str ''let me know when'')),
       (asc ''once you['' @ [39, 39] @ asc '']ve'', rxi (seq [str ''once you'', apostrophes, str ''ve''])),
       (asc ''after you['' @ [39, 39] @ asc '']ve'', rxi (seq [str ''after you'', apostrophes, str ''ve''])),
       (asc ''when you['' @ [39, 39] @ asc '']re ready'',
          rxi (seq [str ''when you'', apostrophes, str ''re ready''])),
       (asc ''waiting for you'', rxi (str ''waiting for you'')),
       (asc ''please (complete|finish|do|run|execute|claim|fund)'',
          rxi (seq [str ''please '', alts [str ''complete'', str ''finish'', str ''do'', str ''run'',
                                          str ''execute'', str ''claim'', str ''fund'']])),
       (asc ''you['' @ [39, 39] @ asc '']ll need to'', rxi (seq [str ''you'', apostrophes, str ''ll need to''])),
       (asc ''you need to'', rxi (str ''you need to'')),
       (asc ''please let me know'', rxi (str ''please let me know''))],
     extractors = None\<rparr>"

definition base58 :: re where
  "base58 = Cls [Rng 49 57, Rng 65 72, Rng 74 78, Rng 80 90, Rng 97 107, Rng 109 122]"

definition amount :: re where
  "amount = Cap (seq [Plus (Cls [Dg]), Opt (seq [str ''.'', Plus (Cls [Dg])])])"

definition wallet_extractor :: regexp where
  "wallet_extractor = rx (Cap (Seq (rep 32 base58) (upto 12 base58)))"

definition needed_extractor :: regexp where
  "needed_extractor =
     rxi (seq [str ''need'', Opt (alts [str ''s'', str ''ed'']), Plus (Cls [Sp]), amount,
               Star (Cls [Sp]), str ''sol''])"

definition current_extractor :: regexp where
  "current_extractor =
     rxi (seq [alts [str ''current'', str ''balance''], Plus (Cls [Ch 58, Sp]), amount,
               Star (Cls [Sp]), str ''sol''])"

definition funding_needed :: pattern_entry where
  "funding_needed = \<lparr>
     category = asc ''funding_needed'',
     patterns = [
       (asc ''need(s|ed)? (more )?(sol|funds|funding|balance)'',
          rxi (seq [str ''need'', Opt (alts [str ''s'', str ''ed'']), str '' '', Opt (str ''more ''),
                    alts [str ''sol'', str ''funds'', str ''funding'', str ''balance'']])),
       (asc ''insufficient (sol|balance|funds)'',
          rxi (seq [str ''insufficient '', alts [str ''sol'', str ''balance'', str ''funds'']])),
       (asc ''airdrop (failed|rate.?limit)'',
          rxi (seq [str ''airdrop '', alts [str ''failed'', seq [str ''rate'', Opt Dot, str ''limit'']]])),
       (asc ''faucet'', rxi (str ''faucet'')),
       (asc ''claim (sol|tokens)'', rxi (seq [str ''claim '', alts [str ''sol'', str ''tokens'']]))],
     extractors = Some [
       (asc ''wallet'', wallet_extractor),
       (asc ''needed'', needed_extractor),
       (asc ''current'', current_extractor)]\<rparr>"

definition external_action :: pattern_entry where
  "external_action = \<lparr>
     category = asc ''external_action'',
     patterns = [
       (asc ''manual(ly)?'', rxi (seq [str ''manual'', Opt (str ''ly'')])),
       (asc ''browser'', rxi (str ''browser'')),
       (asc ''captcha'', rxi (str ''captcha'')),
       (asc ''verification'', rxi (str ''verification'')),
       (asc ''authenticate'', rxi (str ''authenticate'')),
       (asc ''2fa|two.?factor'', rxi (alts [str ''2fa'', seq [str ''two'', Opt Dot, str ''factor'']]))],
     extractors = None\<rparr>"

definition rate_limited :: pattern_entry where
  "rate_limited = \<lparr>
     category = asc ''rate_limited'',
     patterns = [
       (asc ''rate.?limit'', rxi (seq [str ''rate'', Opt Dot, str ''limit''])),
       (asc ''too many requests'', rxi (str ''too many requests'')),
       (asc ''try again (later|in)'', rxi (seq [str ''try again '', alts [str ''later'', str ''in'']])),
       (asc ''cooldown'', rxi (str ''cooldown'')),
       (asc ''quota'', rxi (str ''quota''))],
     extractors = None\<rparr>"

definition permission_needed :: pattern_entry where
  "permission_needed = \<lparr>
     category = asc ''permission_needed'',
     patterns = [
       (asc ''permission denied'', rxi (str ''permission denied'')),
       (asc ''access denied'', rxi (str ''access denied'')),
       (asc ''unauthorized'', rxi (str ''unauthorized'')),
       (asc ''need(s)? (permission|access|credentials)'',
          rxi (seq [str ''need'', Opt (str ''s''), str '' '',
                    alts [str ''permission'', str ''access'', str ''credentials'']]))],
     extractors = None\<rparr>"

definition BLOCKER_PATTERNS :: "pattern_entry list" where
  "BLOCKER_PATTERNS = [waiting_for_user, funding_needed, external_action, rate_limited, permission_needed]"

subsection \<open>detectBlocker\<close>

text \<open>The pre-filter: fenced code blocks, then the lines of Markdown tables.\<close>

definition code_fence :: regexp where
  "code_fence = rx (seq [str ''```'', LazyStar (Cls [Sp, NSp]), str ''```''])"

definition is_table_line :: "ustring \<Rightarrow> bool" where
  "is_table_line line = (startsWith (trim line) (asc ''|'') \<or> str_includes line (asc ''|---''))"

definition cleanText :: "ustring \<Rightarrow> ustring" where
  "cleanText t =
     join [10] (filter (\<lambda>line. \<not> is_table_line line) (split_on 10 (replaceAll code_fence [] t)))"

text \<open>The locals of \<^verbatim>\<open>detectBlocker\<close> that the two loops over the table update.\<close>

record scan_state =
  matched :: "ustring list"
  primaryCategory :: "ustring option"
  extracted :: "(ustring \<times> ustring) list"

definition run_extractor :: "ustring \<Rightarrow> ustring \<times> regexp \<Rightarrow> (ustring \<times> ustring) list \<Rightarrow> (ustring \<times> ustring) list" where
  "run_extractor t ex ctx =
     (case match_group1 (snd ex) t of
        Some (Some v) \<Rightarrow> if v \<noteq> [] then assign (fst ex) v ctx else ctx
      | _ \<Rightarrow> ctx)"

definition try_pattern :: "ustring \<Rightarrow> pattern_entry \<Rightarrow> ustring \<times> regexp \<Rightarrow> scan_state \<Rightarrow> scan_state" where
  "try_pattern t entry pat st =
     (if test (snd pat) t then
        \<lparr>matched = matched st @ [category entry @ asc '':'' @ fst pat],
         primaryCategory =
           (if primaryCategory st = None \<or> primaryCategory st = Some [] then Some (category entry)
            else primaryCategory st),
         extracted =
           (case extractors entry of
              None \<Rightarrow> extracted st
            | Some exs \<Rightarrow> fold (run_extractor t) exs (extracted st))\<rparr>
      else st)"

definition scan_entry :: "ustring \<Rightarrow> pattern_entry \<Rightarrow> scan_state \<Rightarrow> scan_state" where
  "scan_entry t entry st = fold (try_pattern t entry) (patterns entry) st"

definition scan :: "pattern_entry list \<Rightarrow> ustring \<Rightarrow> scan_state" where
  "scan table t = fold (scan_entry t) table \<lparr>matched = [], primaryCategory = None, extracted = []\<rparr>"

subsection \<open>extractBlockerReason\<close>

definition sentence_end :: regexp where
  "sentence_end = rx (Plus (Cls [Ch 46, Ch 33, Ch 63, Ch 10]))"

definition has_blocker_keyword :: "ustring \<Rightarrow> bool" where
  "has_blocker_keyword sentence =
     (let lower = toLowerCase sentence in
        str_includes lower (asc ''need'') \<or> str_includes lower (asc ''wait'') \<or>
        str_includes lower (asc ''please'') \<or> str_includes lower (asc ''blocked'') \<or>
        str_includes lower (asc ''failed''))"

definition sentences :: "ustring \<Rightarrow> ustring list" where
  "sentences t = filter (\<lambda>s. length (trim s) > 10) (split_re sentence_end t)"

definition canned_reason :: "ustring option \<Rightarrow> ustring" where
  "canned_reason cat =
     (if cat = Some (asc ''funding_needed'') then asc ''Insufficient funds - need additional SOL''
      else if cat = Some (asc ''waiting_for_user'') then asc ''Waiting for user action''
      else if cat = Some (asc ''external_action'') then asc ''Requires manual/browser action''
      else if cat = Some (asc ''rate_limited'') then asc ''Rate limited - need to wait''
      else if cat = Some (asc ''permission_needed'') then asc ''Permission or access needed''
      else asc ''Blocked - needs external intervention'')"

definition extractBlockerReason :: "ustring \<Rightarrow> ustring option \<Rightarrow> ustring" where
  "extractBlockerReason t cat =
     (case find has_blocker_keyword (sentences t) of
        Some sentence \<Rightarrow>
          (let trimmed = trim sentence in
             if length trimmed \<le> 150 then trimmed else take 147 trimmed @ asc ''...'')
      | None \<Rightarrow> canned_reason cat)"

definition detectBlocker :: "ustring \<Rightarrow> bool \<Rightarrow> BlockerInfo option" where
  "detectBlocker t sessionEnded =
     (if t = [] \<or> length t < 20 then None
      else
        let t' = cleanText t;
            st = scan BLOCKER_PATTERNS t'
        in if length (matched st) = 0 then None
           else
             let isFundingRelated = (primaryCategory st = Some (asc ''funding_needed''));
                 hasMultipleMatches = (length (matched st) \<ge> 2);
                 isStrongSignal = (sessionEnded \<or> hasMultipleMatches \<or> isFundingRelated)
             in if \<not> isStrongSignal then None
                else Some \<lparr>reason = extractBlockerReason t' (primaryCategory st),
                           lastMessage = t',
                           matchedPatterns = matched st,
                           extractedContext = (if length (extracted st) > 0 then Some (extracted st) else None)\<rparr>)"

subsection \<open>checkEventsForBlocker\<close>

definition COMPLETION_SIGNALS :: "regexp list" where
  "COMPLETION_SIGNALS = [
     rxi (seq [Str [9989], Star Dot, str ''ready'']),
     rxi (seq [Str [10003], Star Dot, str ''ready'']),
     rxi (seq [str ''all'', Star Dot, str ''complete'']),
     rxi (str ''finished''),
     rxi (str ''done!''),
     rxi (str ''successfully'')]"

definition hasCompletionSignal :: "ustring \<Rightarrow> bool" where
  "hasCompletionSignal t = list_ex (\<lambda>p. test p t) COMPLETION_SIGNALS"

definition list_marker :: regexp where
  "list_marker = \<lparr>ignoreCase = False, anchored = True, body = seq [Cls [Ch 45, Ch 42, Ch 43], Cls [Sp]]\<rparr>"

definition numbered_marker :: regexp where
  "numbered_marker = \<lparr>ignoreCase = False, anchored = True, body = seq [Plus (Cls [Dg]), str ''.'', Cls [Sp]]\<rparr>"

definition list_header :: regexp where
  "list_header = \<lparr>ignoreCase = True, anchored = True,
     body = seq [alts [seq [str ''Task'', Opt (str ''s'')], str ''Criteria'', seq [str ''Signal'', Opt (str ''s'')],
                       seq [str ''Example'', Opt (str ''s'')], str ''Quantitative'', str ''Qualitative''],
                 Star Dot, str '':'']\<rparr>"

definition is_list_line :: "ustring \<Rightarrow> bool" where
  "is_list_line line =
     (let trimmed = trim line in
        test list_marker trimmed \<or> test numbered_marker trimmed \<or> test list_header trimmed)"

definition isLikelyListItem :: "ustring \<Rightarrow> bool" where
  "isLikelyListItem t = list_ex is_list_line (split_on 10 t)"

definition has_text :: "SessionEvent \<Rightarrow> bool" where
  "has_text e = (case etext e of None \<Rightarrow> False | Some t \<Rightarrow> t \<noteq> [])"

text \<open>The loop over the recent messages, most recent first.\<close>

fun first_blocker :: "SessionEvent list \<Rightarrow> BlockerInfo option" where
  "first_blocker [] = None"
| "first_blocker (e # es) =
     (case etext e of
        None \<Rightarrow> first_blocker es
      | Some t \<Rightarrow>
          if t = [] then first_blocker es
          else if isLikelyListItem t then first_blocker es
          else (case detectBlocker t True of
                  Some blocker \<Rightarrow> Some blocker
                | None \<Rightarrow> first_blocker es))"

definition recentAssistantMessages :: "SessionEvent list \<Rightarrow> int \<Rightarrow> SessionEvent list" where
  "recentAssistantMessages events lastNEvents =
     slice_from (- lastNEvents) (filter (\<lambda>e. etype e = AssistantMessage \<and> has_text e) events)"

definition checkEventsForBlocker :: "SessionEvent list \<Rightarrow> int \<Rightarrow> BlockerInfo option" where
  "checkEventsForBlocker events lastNEvents =
     (let recent = recentAssistantMessages events lastNEvents in
        if length recent > 0 \<and> (case etext (last recent) of None \<Rightarrow> False
                                  | Some t \<Rightarrow> t \<noteq> [] \<and> hasCompletionSignal t)
        then None
        else first_blocker (rev recent))"

section \<open>The planning request\<close>

text \<open>Numbers in template literals: the decimal digits of an integer.\<close>

function digits :: "nat \<Rightarrow> ustring" where
  "digits n = (if n < 10 then [48 + n] else digits (n div 10) @ [48 + n mod 10])"
  by pat_completeness auto
termination
  by (relation "measure id") auto

declare digits.simps [simp del]

definition number_string :: "int \<Rightarrow> ustring" where
  "number_string k = (if k < 0 then 45 # digits (nat (- k)) else digits (nat k))"

text \<open>An optional string in a template literal, in a condition, and under \<^verbatim>\<open>||\<close>.\<close>

definition template_string :: "ustring option \<Rightarrow> ustring" where
  "template_string v = (case v of None \<Rightarrow> asc ''undefined'' | Some s \<Rightarrow> s)"

definition truthy :: "ustring option \<Rightarrow> bool" where
  "truthy v = (case v of None \<Rightarrow> False | Some s \<Rightarrow> s \<noteq> [])"

definition or_else :: "ustring option \<Rightarrow> ustring \<Rightarrow> ustring" where
  "or_else v d = (case v of None \<Rightarrow> d | Some s \<Rightarrow> if s = [] then d else s)"

definition truthy_number :: "int option \<Rightarrow> bool" where
  "truthy_number v = (case v of None \<Rightarrow> False | Some n \<Rightarrow> n \<noteq> 0)"

datatype request_action = start_action | resume_action

record ChatContext =
  ccChatId :: ustring
  ccThreadId :: "int option"
  ccAccountId :: "ustring option"
  ccForcedResumeToken :: "ustring option"

record PlanningRequestParams =
  action :: request_action
  project :: ustring
  task :: "ustring option"
  requestResumeToken :: "ustring option"
  worktree :: "ustring option"
  quick :: "bool option"
  chatContext :: "ChatContext option"

definition projectSpec :: "PlanningRequestParams \<Rightarrow> ustring" where
  "projectSpec params =
     (if truthy (worktree params) then project params @ asc '' @'' @ template_string (worktree params)
      else project params)"

definition buildQuickStartRequest :: "PlanningRequestParams \<Rightarrow> ustring" where
  "buildQuickStartRequest params = join [10] [
     asc ''[Claude Code Quick Start]'',
     [],
     asc ''Project: '' @ projectSpec params,
     asc ''Task: '' @ or_else (task params) (asc ''Continue working''),
     [],
     asc ''Start a Claude Code session immediately with this task.'',
     asc ''Use the claude_code_start tool with the task as the prompt.'']"

definition buildResumeRequest :: "PlanningRequestParams \<Rightarrow> ustring" where
  "buildResumeRequest params = join [10] (
     [asc ''[Claude Code Resume Request]'',
      [],
      asc ''**CRITICAL RULES:**'',
      asc ''1. You MUST call '' @ [96] @ asc ''claude_code_start'' @ [96] @ asc '' tool immediately'',
      asc ''2. You MUST use EXACTLY this resumeToken: '' @ [34] @ template_string (requestResumeToken params) @ [34],
      asc ''3. Do NOT respond with text messages'',
      [],
      asc ''Project: '' @ or_else (Some (project params)) (asc ''(from token)''),
      asc ''User said: '' @ [34] @ or_else (task params) (asc ''continue'') @ [34],
      [],
      asc ''## Required Tool Call'',
      asc ''Call '' @ [96] @ asc ''claude_code_start'' @ [96] @ asc '' with these EXACT values:'',
      asc ''- project: '' @ [34] @ project params @ [34],
      asc ''- resumeToken: '' @ [34] @ template_string (requestResumeToken params) @ [34] @ asc '' '' @ [8592] @ asc '' MUST USE THIS EXACT TOKEN'',
      asc ''- prompt: <add project context to user'' @ [39] @ asc ''s request>'']
     @ (case chatContext params of
          None \<Rightarrow> []
        | Some cc \<Rightarrow>
            [asc ''- chatId: '' @ [34] @ ccChatId cc @ [34]]
            @ (if truthy_number (ccThreadId cc)
               then [asc ''- threadId: '' @ (case ccThreadId cc of Some n \<Rightarrow> number_string n | None \<Rightarrow> [])]
               else []))
     @ [[],
        asc ''**WARNING:** If you omit resumeToken or use a different value, it will start a NEW session instead of resuming. The user wants to CONTINUE their existing session.''])"

definition buildFullPlanningRequest :: "PlanningRequestParams \<Rightarrow> ustring" where
  "buildFullPlanningRequest params =
     (if \<not> truthy (task params) then join [10] [
        asc ''[Claude Code Request]'',
        asc ''Project: '' @ projectSpec params,
        [],
        asc ''User wants to start a Claude Code session but didn'' @ [39] @ asc ''t specify a task.'',
        asc ''Ask them what they want to work on.'']
      else join [10] (
        [asc ''[Claude Code Start Request]'',
         [],
         asc ''**CRITICAL: You MUST call the '' @ [96] @ asc ''claude_code_start'' @ [96] @ asc '' tool. Do NOT respond with text messages.**'',
         [],
         asc ''Project: '' @ projectSpec params,
         asc ''User said: '' @ [34] @ template_string (task params) @ [34],
         [],
         asc ''## Your Task'',
         asc ''1. BRIEFLY check project context (use '' @ [96] @ asc ''project_context'' @ [96] @ asc '' tool)'',
         asc ''2. Call '' @ [96] @ asc ''claude_code_start'' @ [96] @ asc '' with enriched instructions'',
         [],
         asc ''## Tool Call (REQUIRED)'',
         [96, 96, 96],
         asc ''claude_code_start({'',
         asc ''  project: '' @ [34] @ project params @ [34] @ asc '','']
        @ (if truthy (worktree params)
           then [asc ''  worktree: '' @ [34] @ template_string (worktree params) @ [34] @ asc '','']
           else [])
        @ [asc ''  prompt: '' @ [34] @ asc ''<ENRICHED INSTRUCTIONS - add project context>'' @ [34] @ asc '','',
           asc ''  originalTask: '' @ [34]
             @ replaceAll (rx (Str [34])) [92, 34] (template_string (task params)) @ [34] @ asc '','']
        @ (case chatContext params of
             None \<Rightarrow> []
           | Some cc \<Rightarrow>
               [asc ''  chatId: '' @ [34] @ ccChatId cc @ [34] @ asc '','']
               @ (if truthy_number (ccThreadId cc)
                  then [asc ''  threadId: '' @ (case ccThreadId cc of Some n \<Rightarrow> number_string n | None \<Rightarrow> [])
                        @ asc '','']
                  else [])
               @ (if truthy (ccAccountId cc)
                  then [asc ''  accountId: '' @ [34] @ template_string (ccAccountId cc) @ [34] @ asc '','']
                  else []))
        @ [asc ''})'',
           [96, 96, 96],
           [],
           asc ''**Rules:**'',
           asc ''- DO NOT respond with text messages - call the tool'',
           asc ''- Add context from project (phase, blockers, etc.) to the prompt'',
           asc ''- Only ask clarifying question if TRULY ambiguous (rarely needed)'']))"

definition buildPlanningRequest :: "PlanningRequestParams \<Rightarrow> ustring" where
  "buildPlanningRequest params =
     (if quick params = Some True then buildQuickStartRequest params
      else if action params = resume_action then buildResumeRequest params
      else buildFullPlanningRequest params)"

section \<open>Replies to a bubble\<close>

subsection \<open>parseResumeTokenFromMessage\<close>

record ResumeInfo =
  resumeToken :: ustring
  projectName :: ustring

definition resume_pattern :: regexp where
  "resume_pattern = rx (seq [str ''claude --resume '', Cap (rep 36 (Cls [Rng 97 102, Rng 48 57, Ch 45]))])"

definition ctx_pattern :: regexp where
  "ctx_pattern = rx (seq [str ''ctx:'', Star (Cls [Sp]), Cap (Plus (NCls [Ch 10]))])"

definition header_pattern :: regexp where
  "header_pattern =
     rx (seq [str ''**'', alts [str ''working'', str ''done''], str ''**'', Star (Cls [Sp]), Str [36335],
              Star (Cls [Sp]), Cap (Plus (NCls [Ch 36335])), Star (Cls [Sp]), Str [36335]])"

text \<open>
  The capturing group of each of the three patterns takes part in every match, so index 1
  of a match is a string; the case \<open>Some None\<close> below is never taken.
\<close>

definition parseResumeTokenFromMessage :: "ustring option \<Rightarrow> ResumeInfo option" where
  "parseResumeTokenFromMessage messageText =
     (case messageText of
        None \<Rightarrow> None
      | Some t \<Rightarrow>
          if t = [] then None
          else (case match_group1 resume_pattern t of
                  None \<Rightarrow> None
                | Some None \<Rightarrow> None
                | Some (Some token) \<Rightarrow>
                    Some \<lparr>resumeToken = token,
                          projectName =
                            (case match_group1 ctx_pattern t of
                               Some (Some name) \<Rightarrow> trim name
                             | _ \<Rightarrow>
                                 (case match_group1 header_pattern t of
                                    Some (Some name) \<Rightarrow> trim name
                                  | _ \<Rightarrow> asc ''unknown''))\<rparr>))"

subsection \<open>handleBubbleReply\<close>

text \<open>
  A chat identifier is a number or a string; \<^verbatim>\<open>String(chatId)\<close> prints a number in decimal
  (chat identifiers are integers).
\<close>

datatype chat_id = ChatNumber int | ChatString ustring

fun String_of :: "chat_id \<Rightarrow> ustring" where
  "String_of (ChatNumber n) = number_string n"
| "String_of (ChatString s) = s"

text \<open>
  Modelled from the spec: the \<^verbatim>\<open>Bubble\<close> record and the collaborators of the router
  (\<^verbatim>\<open>isReplyToBubble\<close>, \<^verbatim>\<open>getSession\<close>, \<^verbatim>\<open>sendInput\<close>, \<^verbatim>\<open>resolveProject\<close>,
  \<^verbatim>\<open>logDyDoCommand\<close>, \<^verbatim>\<open>setForcedResumeToken\<close>, the chat transport) live in modules that the
  sources do not include. The spec's Bubble carries \<open>sessionId\<close>, \<open>resumeToken\<close>,
  \<open>projectName\<close>, \<open>workingDir\<close>; the lookup returns the session identifier with the bubble.
  What the collaborators answer is a parameter (\<open>router_env\<close>): \<open>getSession\<close> and
  \<open>resolveProject\<close> are read only for whether they return an object. What the router asks
  them to do is the list of effects it returns, in the order of the calls.
\<close>

record Bubble =
  bubbleResumeToken :: ustring
  bubbleProjectName :: ustring
  bubbleWorkingDir :: ustring

record router_env =
  isReplyToBubble :: "chat_id \<Rightarrow> int \<Rightarrow> (ustring \<times> Bubble) option"
  getSession :: "ustring \<Rightarrow> bool"
  sendInput :: "ustring \<Rightarrow> ustring \<Rightarrow> bool"
  resolveProject :: "ustring \<Rightarrow> bool"

datatype effect =
    LogDyDoCommand ustring ustring ustring ustring
  | SendInput ustring ustring
  | SendMessage chat_id ustring "int option"
  | SetForcedResumeToken ustring ustring

datatype HandleBubbleReplyResult =
    not_bubble_reply
  | handled_directly
  | route_to_dydo ustring

record BubbleReplyParams =
  chatId :: chat_id
  replyToMessageId :: int
  replyText :: ustring
  threadId :: "int option"
  originalMessageText :: "ustring option"

definition short_of :: "ustring \<Rightarrow> ustring" where
  "short_of t = (if length t > 50 then take 47 t @ asc ''...'' else t)"

definition log_command :: "BubbleReplyParams \<Rightarrow> ustring \<Rightarrow> ustring \<Rightarrow> effect" where
  "log_command p token proj = LogDyDoCommand (replyText p) token (short_of (replyText p)) proj"

definition message_thread_id :: "BubbleReplyParams \<Rightarrow> int option" where
  "message_thread_id p = (if truthy_number (threadId p) then threadId p else None)"

text \<open>
  The end of both paths of \<^verbatim>\<open>handleBubbleReply\<close>: force the resume token for this chat,
  build the resume request, route to the orchestrator.
\<close>

definition resume_request :: "BubbleReplyParams \<Rightarrow> ustring \<Rightarrow> ustring \<Rightarrow> ustring" where
  "resume_request p token proj =
     buildPlanningRequest \<lparr>
       action = resume_action,
       project = proj,
       task = Some (replyText p),
       requestResumeToken = Some token,
       worktree = None,
       quick = None,
       chatContext = Some \<lparr>ccChatId = String_of (chatId p), ccThreadId = threadId p,
                             ccAccountId = None, ccForcedResumeToken = None\<rparr>\<rparr>"

definition confirmation :: "ustring \<Rightarrow> ustring" where
  "confirmation t =
     asc '' Sent to Claude Code: '' @ [34] @ take 50 t @ (if length t > 50 then asc ''...'' else []) @ [34]"

definition handleBubbleReply :: "router_env \<Rightarrow> BubbleReplyParams \<Rightarrow> HandleBubbleReplyResult \<times> effect list" where
  "handleBubbleReply env p =
     (case isReplyToBubble env (chatId p) (replyToMessageId p) of
        None \<Rightarrow>
          (case parseResumeTokenFromMessage (originalMessageText p) of
             None \<Rightarrow> (not_bubble_reply, [])
           | Some fallbackInfo \<Rightarrow>
               if \<not> resolveProject env (projectName fallbackInfo) then
                 (handled_directly,
                  [log_command p (resumeToken fallbackInfo) (projectName fallbackInfo),
                   SendMessage (chatId p) (asc ''Could not find project: '' @ projectName fallbackInfo)
                     (message_thread_id p)])
               else
                 (route_to_dydo (resume_request p (resumeToken fallbackInfo) (projectName fallbackInfo)),
                  [log_command p (resumeToken fallbackInfo) (projectName fallbackInfo),
                   SetForcedResumeToken (resumeToken fallbackInfo) (String_of (chatId p))]))
      | Some (sessionId, bubble) \<Rightarrow>
          if getSession env sessionId then
            (if sendInput env sessionId (replyText p) then
               (handled_directly,
                [log_command p (bubbleResumeToken bubble) (bubbleProjectName bubble),
                 SendInput sessionId (replyText p),
                 SendMessage (chatId p) (confirmation (replyText p)) (message_thread_id p)])
             else
               (route_to_dydo (resume_request p (bubbleResumeToken bubble) (bubbleProjectName bubble)),
                [log_command p (bubbleResumeToken bubble) (bubbleProjectName bubble),
                 SendInput sessionId (replyText p),
                 SetForcedResumeToken (bubbleResumeToken bubble) (String_of (chatId p))]))
          else
            (route_to_dydo (resume_request p (bubbleResumeToken bubble) (bubbleProjectName bubble)),
             [log_command p (bubbleResumeToken bubble) (bubbleProjectName bubble),
              SetForcedResumeToken (bubbleResumeToken bubble) (String_of (chatId p))]))"

section \<open>The blocker assessor and the realtime interventor\<close>

subsection \<open>Data\<close>

record BlockerAssessment =
  isRealBlocker :: bool
  confidence :: real
  reasoning :: ustring
  canAutoHandle :: "bool option"
  autoResponse :: "ustring option"

record InterventionResult =
  intervened :: bool
  response :: "ustring option"
  interventionReasoning :: ustring

record InterventionDecision =
  canHandle :: bool
  decisionResponse :: "ustring option"
  decisionReasoning :: ustring

record SessionContext =
  scSessionId :: ustring
  scProjectName :: ustring
  scRecentEvents :: "SessionEvent list"

text \<open>A value thrown, or the reason of a rejected promise.\<close>

datatype js_error = JsError ustring

subsection \<open>JSON.stringify of an object of strings, indented by two spaces\<close>

definition hex_digit :: "nat \<Rightarrow> cu" where
  "hex_digit n = (if n < 10 then 48 + n else 87 + n)"

definition unicode_escape :: "cu \<Rightarrow> ustring" where
  "unicode_escape c =
     [92, 117, hex_digit (c div 4096 mod 16), hex_digit (c div 256 mod 16),
      hex_digit (c div 16 mod 16), hex_digit (c mod 16)]"

definition is_high_surrogate :: "cu \<Rightarrow> bool" where
  "is_high_surrogate c = (55296 \<le> c \<and> c \<le> 56319)"

definition is_low_surrogate :: "cu \<Rightarrow> bool" where
  "is_low_surrogate c = (56320 \<le> c \<and> c \<le> 57343)"

fun json_escape :: "ustring \<Rightarrow> ustring" where
  "json_escape [] = []"
| "json_escape [c] =
     (if c = 8 then [92, 98] else if c = 9 then [92, 116] else if c = 10 then [92, 110]
      else if c = 12 then [92, 102] else if c = 13 then [92, 114]
      else if c = 34 then [92, 34] else if c = 92 then [92, 92]
      else if c < 32 \<or> is_high_surrogate c \<or> is_low_surrogate c then unicode_escape c
      else [c])"
| "json_escape (c # d # ds) =
     (if is_high_surrogate c \<and> is_low_surrogate d then c # d # json_escape ds
      else json_escape [c] @ json_escape (d # ds))"

definition json_quote :: "ustring \<Rightarrow> ustring" where
  "json_quote t = [34] @ json_escape t @ [34]"

definition json_stringify :: "(ustring \<times> ustring) list \<Rightarrow> ustring" where
  "json_stringify obj =
     (if obj = [] then asc ''{}''
      else asc ''{'' @ [10]
           @ join (asc '','' @ [10]) (map (\<lambda>kv. asc ''  '' @ json_quote (fst kv) @ asc '': '' @ json_quote (snd kv)) obj)
           @ [10] @ asc ''}'')"

subsection \<open>Level 2: assessBlocker\<close>

definition numbered_messages :: "int \<Rightarrow> nat \<Rightarrow> SessionEvent list \<Rightarrow> ustring" where
  "numbered_messages lastN width events =
     join [10, 10]
       (map (\<lambda>ie. asc ''['' @ digits (fst ie) @ asc ''] ''
                   @ template_string (map_option (take width) (etext (snd ie))) @ asc ''...'')
          (enumerate 1 (slice_from (- lastN) (filter (\<lambda>e. etype e = AssistantMessage \<and> has_text e) events))))"

definition assessment_instructions :: ustring where
  "assessment_instructions = join [10] [
       [],
       [],
       asc ''## Your Task'',
       [],
       asc ''You are DyDo, reviewing a Claude Code session that pattern matching flagged as '' @ [34] @ asc ''possibly blocked'' @ [34] @ asc ''.'',
       [],
       asc ''**Analyze the context above and determine:**'',
       [],
       asc ''1. **Is this a REAL blocker?**'',
       asc ''   - Real blocker: Claude Code needs user/external intervention to continue'',
       asc ''   - False positive: Pattern matching triggered on list items, examples, or completed tasks'',
       [],
       asc ''2. **Confidence level (0.0 to 1.0)**'',
       asc ''   - 0.9-1.0: Very confident in your judgment'',
       asc ''   - 0.7-0.8: Confident but some uncertainty'',
       asc ''   - 0.5-0.6: Uncertain, could go either way'',
       asc ''   - 0.0-0.4: Low confidence'',
       [],
       asc ''3. **Reasoning:** Why did you reach this conclusion?'',
       [],
       asc ''4. **(Level 3) Can you handle this automatically?**'',
       asc ''   - If yes, provide the response you'' @ [39] @ asc ''d send to Claude Code'',
       [],
       asc ''**Respond in JSON format:**'',
       [96, 96, 96] @ asc ''json'',
       asc ''{'',
       asc ''  '' @ [34] @ asc ''isRealBlocker'' @ [34] @ asc '': true/false,'',
       asc ''  '' @ [34] @ asc ''confidence'' @ [34] @ asc '': 0.0-1.0,'',
       asc ''  '' @ [34] @ asc ''reasoning'' @ [34] @ asc '': '' @ [34] @ asc ''Your analysis here'' @ [34] @ asc '','',
       asc ''  '' @ [34] @ asc ''canAutoHandle'' @ [34] @ asc '': true/false,'',
       asc ''  '' @ [34] @ asc ''autoResponse'' @ [34] @ asc '': '' @ [34] @ asc ''Your response to Claude Code (if canAutoHandle is true)'' @ [34],
       asc ''}'',
       [96, 96, 96],
       []]"

definition buildContextSummary :: "BlockerInfo \<Rightarrow> SessionEvent list \<Rightarrow> ustring \<Rightarrow> ustring" where
  "buildContextSummary blocker sessionEvents sessionStatus =
     (let recentMessages = numbered_messages 10 500 sessionEvents;
          extractedCtx =
            (case extractedContext blocker of
               None \<Rightarrow> []
             | Some obj \<Rightarrow> [10] @ asc ''Extracted Context:'' @ [10] @ json_stringify obj)
      in trim (
           ([10] @ asc ''## Blocker Detection Context'' @ [10, 10] @ asc ''**Detected Reason:** '') @ reason blocker
           @ ([10] @ asc ''**Matched Patterns:** '') @ join (asc '', '') (matchedPatterns blocker)
           @ ([10] @ asc ''**Session Status:** '') @ sessionStatus @ extractedCtx
           @ ([10, 10] @ asc ''**Recent Messages (last 10):**'' @ [10]) @ recentMessages
           @ assessment_instructions))"

text \<open>The heuristic that stands for the judgment oracle.\<close>

definition assessor_completion_signal :: regexp where
  "assessor_completion_signal =
     rxi (alts [seq [Str [9989], Star Dot, str ''ready''], seq [str ''all'', Star Dot, str ''complete''],
                str ''finished'', str ''done!''])"

definition assessor_list_context :: regexp where
  "assessor_list_context =
     rxi (alts [seq [str ''Task'', Opt (str ''s''), str '' where''], str ''Criteria'',
                seq [str ''Signal'', Opt (str ''s'')], seq [str ''Example'', Opt (str ''s'')],
                str ''Quantitative'', str ''Qualitative''])"

definition assessor_funding :: regexp where
  "assessor_funding =
     rxi (alts [seq [str ''need'', Opt (alts [str ''s'', str ''ed'']), Plus (Cls [Sp]), amount,
                     Star (Cls [Sp]), str ''sol''],
                seq [str ''insufficient'', Star Dot, str ''balance'']])"

definition invokeDyDoAssessment :: "ustring \<Rightarrow> BlockerAssessment" where
  "invokeDyDoAssessment contextSummary =
     (if test assessor_completion_signal contextSummary then
        \<lparr>isRealBlocker = False, confidence = 0.9,
         reasoning = asc ''Detected completion signal ('' @ [9989] @ asc '' ready / all complete). This is a false positive.'',
         canAutoHandle = None, autoResponse = None\<rparr>
      else if test assessor_list_context contextSummary then
        \<lparr>isRealBlocker = False, confidence = 0.85,
         reasoning = asc ''Detected list/criteria context. The pattern match is likely from documentation or analysis, not a real blocker.'',
         canAutoHandle = None, autoResponse = None\<rparr>
      else if test assessor_funding contextSummary then
        \<lparr>isRealBlocker = True, confidence = 0.9,
         reasoning = asc ''Detected funding/balance issue. This is a real blocker.'',
         canAutoHandle = None, autoResponse = None\<rparr>
      else
        \<lparr>isRealBlocker = True, confidence = 0.6,
         reasoning = asc ''Unable to determine with high confidence. Defaulting to real blocker (conservative).'',
         canAutoHandle = None, autoResponse = None\<rparr>)"

text \<open>
  \<^verbatim>\<open>assessBlocker\<close> awaits the oracle inside \<^verbatim>\<open>try\<close>. The oracle is the first argument: it
  answers with an assessment (\<open>Inr\<close>) or throws (\<open>Inl\<close>). The result is a sum as well, so
  that an exception leaving \<^verbatim>\<open>assessBlocker\<close> would be a value \<open>Inl\<close>.
\<close>

definition assessment_fallback :: BlockerAssessment where
  "assessment_fallback =
     \<lparr>isRealBlocker = True, confidence = 0.5,
      reasoning = asc ''Assessment failed, defaulting to pattern matching result'',
      canAutoHandle = None, autoResponse = None\<rparr>"

definition assessBlocker_with ::
  "(ustring \<Rightarrow> js_error + BlockerAssessment) \<Rightarrow> BlockerInfo \<Rightarrow> SessionEvent list \<Rightarrow> ustring
     \<Rightarrow> js_error + BlockerAssessment" where
  "assessBlocker_with invoke blocker sessionEvents sessionStatus =
     (let contextSummary = buildContextSummary blocker sessionEvents sessionStatus in
        case invoke contextSummary of
          Inr assessment \<Rightarrow> Inr assessment
        | Inl err \<Rightarrow> Inr assessment_fallback)"

definition assessBlocker :: "BlockerInfo \<Rightarrow> SessionEvent list \<Rightarrow> ustring \<Rightarrow> js_error + BlockerAssessment" where
  "assessBlocker = assessBlocker_with (\<lambda>contextSummary. Inr (invokeDyDoAssessment contextSummary))"

subsection \<open>Level 3: checkForRealtimeIntervention\<close>

definition intervention_instructions :: ustring where
  "intervention_instructions = join [10] [
       [],
       [],
       asc ''## Your Task'',
       [],
       asc ''You are DyDo, monitoring a Claude Code session in real-time. Claude Code appears to be waiting for something.'',
       [],
       asc ''**Can you handle this automatically?**'',
       [],
       asc ''Examples you CAN handle:'',
       asc ''- '' @ [34] @ asc ''Should I proceed with this change?'' @ [34] @ asc '' '' @ [8594] @ asc '' '' @ [34] @ asc ''Yes, proceed'' @ [34],
       asc ''- '' @ [34] @ asc ''Which approach do you prefer?'' @ [34] @ asc '' '' @ [8594] @ asc '' Make a decision based on project context'',
       asc ''- '' @ [34] @ asc ''Do you want me to continue?'' @ [34] @ asc '' '' @ [8594] @ asc '' '' @ [34] @ asc ''Yes, continue'' @ [34],
       [],
       asc ''Examples you CANNOT handle:'',
       asc ''- '' @ [34] @ asc ''You need to fund this wallet: 0x...'' @ [34] @ asc '' '' @ [8594] @ asc '' User must do this'',
       asc ''- '' @ [34] @ asc ''The build failed, manual fix needed'' @ [34] @ asc '' '' @ [8594] @ asc '' User must debug'',
       asc ''- '' @ [34] @ asc ''Rate limited, wait 5 minutes'' @ [34] @ asc '' '' @ [8594] @ asc '' Must wait'',
       [],
       asc ''**Respond in JSON:**'',
       [96, 96, 96] @ asc ''json'',
       asc ''{'',
       asc ''  '' @ [34] @ asc ''canHandle'' @ [34] @ asc '': true/false,'',
       asc ''  '' @ [34] @ asc ''response'' @ [34] @ asc '': '' @ [34] @ asc ''Your response to Claude Code (if canHandle is true)'' @ [34] @ asc '','',
       asc ''  '' @ [34] @ asc ''reasoning'' @ [34] @ asc '': '' @ [34] @ asc ''Why you can/cannot handle this'' @ [34],
       asc ''}'',
       [96, 96, 96],
       []]"

definition buildInterventionContext :: "BlockerInfo \<Rightarrow> ustring \<Rightarrow> SessionContext \<Rightarrow> ustring" where
  "buildInterventionContext blocker questionText sessionContext =
     (let recentMessages = numbered_messages 5 300 (scRecentEvents sessionContext)
      in trim (
           ([10] @ asc ''## Real-Time Intervention Request'' @ [10, 10] @ asc ''**Project:** '') @ scProjectName sessionContext
           @ ([10] @ asc ''**Session ID:** '') @ scSessionId sessionContext
           @ ([10, 10] @ asc ''**Claude Code just said:**'' @ [10, 34]) @ questionText
           @ ([34, 10, 10] @ asc ''**Detected blocker pattern:** '') @ reason blocker
           @ ([10, 10] @ asc ''**Recent conversation (last 5 messages):**'' @ [10]) @ recentMessages
           @ intervention_instructions))"

definition yes_no_question :: regexp where
  "yes_no_question = rxi (alts [str ''should i proceed'', str ''do you want'', str ''shall i continue''])"

definition funding_issue :: regexp where
  "funding_issue = rxi (alts [str ''fund'', str ''wallet'', str ''balance'', str ''sol''])"

definition invokeDyDoIntervention :: "ustring \<Rightarrow> InterventionDecision" where
  "invokeDyDoIntervention contextSummary =
     (if test yes_no_question contextSummary then
        \<lparr>canHandle = True, decisionResponse = Some (asc ''Yes, please proceed.''),
         decisionReasoning = asc ''Simple yes/no question - DyDo can approve''\<rparr>
      else if test funding_issue contextSummary then
        \<lparr>canHandle = False, decisionResponse = None,
         decisionReasoning = asc ''Funding issue requires user action''\<rparr>
      else
        \<lparr>canHandle = False, decisionResponse = None,
         decisionReasoning = asc ''Uncertain - escalating to user for safety''\<rparr>)"

definition intervention_fallback :: InterventionDecision where
  "intervention_fallback =
     \<lparr>canHandle = False, decisionResponse = None,
      decisionReasoning = asc ''Intervention assessment failed, escalating to user''\<rparr>"

definition askDyDoForIntervention_with ::
  "(ustring \<Rightarrow> js_error + InterventionDecision) \<Rightarrow> BlockerInfo \<Rightarrow> ustring \<Rightarrow> SessionContext
     \<Rightarrow> js_error + InterventionDecision" where
  "askDyDoForIntervention_with invoke blocker questionText sessionContext =
     (let contextSummary = buildInterventionContext blocker questionText sessionContext in
        case invoke contextSummary of
          Inr decision \<Rightarrow> Inr decision
        | Inl err \<Rightarrow> Inr intervention_fallback)"

definition checkForRealtimeIntervention_with ::
  "(ustring \<Rightarrow> js_error + InterventionDecision) \<Rightarrow> SessionEvent \<Rightarrow> SessionContext
     \<Rightarrow> js_error + InterventionResult" where
  "checkForRealtimeIntervention_with invoke event sessionContext =
     (if etype event \<noteq> AssistantMessage \<or> \<not> has_text event then
        Inr \<lparr>intervened = False, response = None, interventionReasoning = asc ''Not an assistant message''\<rparr>
      else
        case detectBlocker (template_string (etext event)) False of
          None \<Rightarrow>
            Inr \<lparr>intervened = False, response = None,
                 interventionReasoning = asc ''No blocker pattern detected''\<rparr>
        | Some suspectedBlocker \<Rightarrow>
            (case askDyDoForIntervention_with invoke suspectedBlocker (template_string (etext event))
                    sessionContext of
               Inl err \<Rightarrow> Inl err
             | Inr intervention \<Rightarrow>
                 if canHandle intervention \<and> truthy (decisionResponse intervention) then
                   Inr \<lparr>intervened = True, response = decisionResponse intervention,
                        interventionReasoning = decisionReasoning intervention\<rparr>
                 else
                   Inr \<lparr>intervened = False, response = None,
                        interventionReasoning = decisionReasoning intervention\<rparr>))"

definition checkForRealtimeIntervention ::
  "SessionEvent \<Rightarrow> SessionContext \<Rightarrow> js_error + InterventionResult" where
  "checkForRealtimeIntervention =
     checkForRealtimeIntervention_with (\<lambda>contextSummary. Inr (invokeDyDoIntervention contextSummary))"

section \<open>Example inputs\<close>

definition assistant :: "ustring \<Rightarrow> SessionEvent" where
  "assistant t = \<lparr>etype = AssistantMessage, etext = Some t, timestamp = 0\<rparr>"

definition funding_scenario_text :: ustring where
  "funding_scenario_text = asc ''Need 2 SOL to proceed, current balance 0.1 SOL''"

definition faucet_text :: ustring where
  "faucet_text = asc ''The faucet is currently empty here''"

definition faucet_blocker :: BlockerInfo where
  "faucet_blocker =
     \<lparr>reason = asc ''Insufficient funds - need additional SOL'', lastMessage = faucet_text,
      matchedPatterns = [asc ''funding_needed:faucet''], extractedContext = None\<rparr>"

definition rate_text :: ustring where
  "rate_text = asc ''Rate limit hit: too many requests''"

definition list_item_text :: ustring where
  "list_item_text = asc ''- Tasks where funding was needed: none''"

definition completion_text :: ustring where
  "completion_text = asc ''All done! Everything finished successfully''"

definition fenced_text :: ustring where
  "fenced_text =
     asc ''| faucet |'' @ [10] @ faucet_text @ [96, 96, 96] @ asc ''please fund the wallet'' @ [96, 96, 96]"

definition fenced_blocks :: "(ustring \<times> ustring) list" where
  "fenced_blocks = [(asc ''| faucet |'' @ [10] @ faucet_text, asc ''please fund the wallet'')]"

definition long_sentence :: ustring where
  "long_sentence = asc ''Please wait until the airdrop has been confirmed on the network before continuing with the deployment of the program because the wallet is still empty and nothing can be signed''"

definition resume_message :: ustring where
  "resume_message =
     asc ''...claude --resume 123e4567-e89b-12d3-a456-426614174000...'' @ [10] @ asc ''ctx: my-project @main''"

definition resume_message_ctx_first :: ustring where
  "resume_message_ctx_first =
     asc ''ctx: my-project @main'' @ [10] @ asc ''...claude --resume 123e4567-e89b-12d3-a456-426614174000...''"

text \<open>Two messages that hold the resume hint and the \<^verbatim>\<open>ctx:\<close> line of the spec after another
  \<^verbatim>\<open>ctx:\<close> line, and after another resume hint.\<close>

definition other_ctx_message :: ustring where
  "other_ctx_message = asc ''ctx: other'' @ [10] @ resume_message"

definition earlier_hint_message :: ustring where
  "earlier_hint_message =
     asc ''claude --resume 00000000-0000-0000-0000-000000000000'' @ [10] @ resume_message"

definition bare_resume_message :: ustring where
  "bare_resume_message = asc ''To continue: claude --resume 123e4567-e89b-12d3-a456-426614174000''"

definition example_bubble :: Bubble where
  "example_bubble =
     \<lparr>bubbleResumeToken = asc ''123e4567-e89b-12d3-a456-426614174000'',
      bubbleProjectName = asc ''my-project'', bubbleWorkingDir = asc ''/work/my-project''\<rparr>"

definition example_reply :: BubbleReplyParams where
  "example_reply =
     \<lparr>chatId = ChatNumber 42, replyToMessageId = 7, replyText = asc ''continue with the tests'',
      threadId = None, originalMessageText = Some bare_resume_message\<rparr>"

text \<open>Three answers of the collaborators: the bubble is known and its session takes the
  input; the bubble is known, the session is live and refuses the input; the bubble is not
  known.\<close>

definition accepting_env :: router_env where
  "accepting_env =
     \<lparr>isReplyToBubble = (\<lambda>c m. Some (asc ''session-1'', example_bubble)),
      getSession = (\<lambda>s. True), sendInput = (\<lambda>s t. True), resolveProject = (\<lambda>n. True)\<rparr>"

definition refusing_env :: router_env where
  "refusing_env =
     \<lparr>isReplyToBubble = (\<lambda>c m. Some (asc ''session-1'', example_bubble)),
      getSession = (\<lambda>s. True), sendInput = (\<lambda>s t. False), resolveProject = (\<lambda>n. True)\<rparr>"

definition forgetful_env :: router_env where
  "forgetful_env =
     \<lparr>isReplyToBubble = (\<lambda>c m. None),
      getSession = (\<lambda>s. False), sendInput = (\<lambda>s t. False), resolveProject = (\<lambda>n. False)\<rparr>"

definition failing_oracle :: "ustring \<Rightarrow> js_error + 'a" where
  "failing_oracle contextSummary = Inl (JsError (asc ''network unreachable''))"

definition example_context :: SessionContext where
  "example_context =
     \<lparr>scSessionId = asc ''session-1'', scProjectName = asc ''my-project'',
      scRecentEvents = [assistant faucet_text]\<rparr>"

text \<open>The calls to \<^verbatim>\<open>setForcedResumeToken\<close> and to \<^verbatim>\<open>sendInput\<close> among the effects.\<close>

fun forced_tokens :: "effect list \<Rightarrow> (ustring \<times> ustring) list" where
  "forced_tokens [] = []"
| "forced_tokens (SetForcedResumeToken token chat # es) = (token, chat) # forced_tokens es"
| "forced_tokens (e # es) = forced_tokens es"

fun sent_inputs :: "effect list \<Rightarrow> (ustring \<times> ustring) list" where
  "sent_inputs [] = []"
| "sent_inputs (SendInput session t # es) = (session, t) # sent_inputs es"
| "sent_inputs (e # es) = sent_inputs es"

text \<open>The fence of a code block, and the ends of a text.\<close>

definition fence :: ustring where
  "fence = [96, 96, 96]"

primrec rests :: "ustring \<Rightarrow> ustring list" where
  "rests [] = [[]]"
| "rests (c # cs) = (c # cs) # rests cs"

text \<open>A text holds a fenced block when a fence opens it somewhere and another fence follows.\<close>

fun has_fenced_block :: "ustring \<Rightarrow> bool" where
  "has_fenced_block [] = False"
| "has_fenced_block (c # cs) =
     ((startsWith (c # cs) fence \<and> str_includes (drop 3 (c # cs)) fence) \<or> has_fenced_block cs)"

text \<open>No fence begins within \<open>x\<close> when a fence follows \<open>x\<close>: the first fence of \<open>x @ fence\<close> is
  the one at its end.\<close>

definition first_fence_after :: "ustring \<Rightarrow> bool" where
  "first_fence_after x = (\<not> str_includes (x @ [96, 96]) fence)"

text \<open>
  A text written as its fenced blocks and what is outside them: each pair \<open>(p, u)\<close> is a piece
  \<open>p\<close> outside the blocks followed by a block, the fence, the content \<open>u\<close> and the closing
  fence; the tail follows the last block. \<open>without_blocks\<close> is the same text with every block
  taken out. In \<open>blocks_ok\<close> the opening fence of each block is the first fence after the block
  before it, and its closing fence is the first fence after the opening one.
\<close>

fun with_blocks :: "(ustring \<times> ustring) list \<Rightarrow> ustring \<Rightarrow> ustring" where
  "with_blocks [] tail = tail"
| "with_blocks ((p, u) # bs) tail = p @ fence @ u @ fence @ with_blocks bs tail"

fun without_blocks :: "(ustring \<times> ustring) list \<Rightarrow> ustring \<Rightarrow> ustring" where
  "without_blocks [] tail = tail"
| "without_blocks ((p, u) # bs) tail = p @ without_blocks bs tail"

definition blocks_ok :: "(ustring \<times> ustring) list \<Rightarrow> bool" where
  "blocks_ok bs = list_all (\<lambda>(p, u). first_fence_after p \<and> first_fence_after u) bs"

text \<open>The invariant of the two loops of \<^verbatim>\<open>detectBlocker\<close>: a primary category is set only
  once a pattern has matched.\<close>

definition scan_inv :: "scan_state \<Rightarrow> bool" where
  "scan_inv st = (primaryCategory st = None \<or> matched st \<noteq> [])"

section \<open>Evaluation\<close>

lemmas rx_eval = asc_def is_space_def is_line_terminator_def canonicalize_def to_lower_def class_has_def
  str_def rx_def rxi_def match_here_def exec_def test_def match_group1_def

lemmas table_eval = scan_entry_def try_pattern_def run_extractor_def apostrophes_def base58_def amount_def
  wallet_extractor_def needed_extractor_def current_extractor_def

lemma rep_numeral: "rep (numeral k) r = Seq r (rep (pred_numeral k) r)"
  by (simp add: numeral_eq_Suc)

lemma upto_numeral: "upto (numeral k) r = Opt (Seq r (upto (pred_numeral k) r))"
  by (simp add: numeral_eq_Suc)

subsection \<open>The funding scenario\<close>

lemma scenario_waiting: "scan_entry funding_scenario_text waiting_for_user st = st"
  by (simp add: rx_eval table_eval funding_scenario_text_def waiting_for_user_def)

lemma scenario_funding: "scan_entry funding_scenario_text funding_needed st = st"
  by (simp add: rx_eval table_eval funding_scenario_text_def funding_needed_def)

lemma scenario_external: "scan_entry funding_scenario_text external_action st = st"
  by (simp add: rx_eval table_eval funding_scenario_text_def external_action_def)

lemma scenario_rate: "scan_entry funding_scenario_text rate_limited st = st"
  by (simp add: rx_eval table_eval funding_scenario_text_def rate_limited_def)

lemma scenario_permission: "scan_entry funding_scenario_text permission_needed st = st"
  by (simp add: rx_eval table_eval funding_scenario_text_def permission_needed_def)

lemma scenario_scan:
  "scan BLOCKER_PATTERNS funding_scenario_text = \<lparr>matched = [], primaryCategory = None, extracted = []\<rparr>"
  by (simp add: scan_def BLOCKER_PATTERNS_def scenario_waiting scenario_funding scenario_external
      scenario_rate scenario_permission)

lemma scenario_clean: "cleanText funding_scenario_text = funding_scenario_text"
  by (simp add: rx_eval funding_scenario_text_def cleanText_def code_fence_def is_table_line_def trim_def)

lemma scenario_no_completion: "\<not> hasCompletionSignal funding_scenario_text"
  by (simp add: rx_eval funding_scenario_text_def hasCompletionSignal_def COMPLETION_SIGNALS_def)

lemma scenario_no_list: "\<not> isLikelyListItem funding_scenario_text"
  by (simp add: rx_eval funding_scenario_text_def isLikelyListItem_def is_list_line_def trim_def
      list_marker_def numbered_marker_def list_header_def)

lemma scenario_needed: "match_group1 needed_extractor funding_scenario_text = Some (Some (asc ''2''))"
  by (simp add: rx_eval table_eval funding_scenario_text_def)

lemma scenario_current: "match_group1 current_extractor funding_scenario_text = Some (Some (asc ''0.1''))"
  by (simp add: rx_eval table_eval funding_scenario_text_def)

lemma scenario_assessor: "test assessor_funding funding_scenario_text"
  by (simp add: rx_eval table_eval funding_scenario_text_def assessor_funding_def)

lemma scenario_detect: "detectBlocker funding_scenario_text ended = None"
  by (simp add: detectBlocker_def Let_def scenario_clean scenario_scan)

lemma scenario_nonempty: "funding_scenario_text \<noteq> []"
  by (simp add: funding_scenario_text_def asc_def)

subsection \<open>A message that names the faucet\<close>

lemma faucet_waiting: "scan_entry faucet_text waiting_for_user st = st"
  by (simp add: rx_eval table_eval faucet_text_def waiting_for_user_def)

lemma faucet_funding:
  "scan_entry faucet_text funding_needed \<lparr>matched = [], primaryCategory = None, extracted = []\<rparr> =
     \<lparr>matched = [asc ''funding_needed:faucet''], primaryCategory = Some (asc ''funding_needed''),
      extracted = []\<rparr>"
  by (simp add: rx_eval table_eval faucet_text_def funding_needed_def rep_numeral upto_numeral)

lemma faucet_external: "scan_entry faucet_text external_action st = st"
  by (simp add: rx_eval table_eval faucet_text_def external_action_def)

lemma faucet_rate: "scan_entry faucet_text rate_limited st = st"
  by (simp add: rx_eval table_eval faucet_text_def rate_limited_def)

lemma faucet_permission: "scan_entry faucet_text permission_needed st = st"
  by (simp add: rx_eval table_eval faucet_text_def permission_needed_def)

lemma faucet_scan:
  "scan BLOCKER_PATTERNS faucet_text =
     \<lparr>matched = [asc ''funding_needed:faucet''], primaryCategory = Some (asc ''funding_needed''),
      extracted = []\<rparr>"
  by (simp add: scan_def BLOCKER_PATTERNS_def faucet_waiting faucet_funding faucet_external faucet_rate
      faucet_permission)

lemma faucet_clean: "cleanText faucet_text = faucet_text"
  by (simp add: rx_eval faucet_text_def cleanText_def code_fence_def is_table_line_def trim_def)

lemma faucet_reason: "extractBlockerReason faucet_text c = canned_reason c"
  by (simp add: rx_eval faucet_text_def extractBlockerReason_def sentences_def split_re_def sentence_end_def
      trim_def has_blocker_keyword_def toLowerCase_def lower_cu_def)

lemma faucet_length: "length faucet_text = 34"
  by (simp add: faucet_text_def asc_def)

lemma faucet_nonempty: "faucet_text \<noteq> []"
  by (simp add: faucet_text_def asc_def)

lemma faucet_detect: "detectBlocker faucet_text ended = Some faucet_blocker"
  by (simp add: detectBlocker_def Let_def faucet_clean faucet_scan faucet_reason faucet_length
      faucet_nonempty canned_reason_def faucet_blocker_def)

lemma faucet_no_completion: "\<not> hasCompletionSignal faucet_text"
  by (simp add: rx_eval faucet_text_def hasCompletionSignal_def COMPLETION_SIGNALS_def)

lemma faucet_no_list: "\<not> isLikelyListItem faucet_text"
  by (simp add: rx_eval faucet_text_def isLikelyListItem_def is_list_line_def trim_def
      list_marker_def numbered_marker_def list_header_def)

lemma fenced_clean: "cleanText fenced_text = faucet_text"
  by (simp add: rx_eval fenced_text_def faucet_text_def cleanText_def code_fence_def is_table_line_def
      trim_def)

lemma fenced_has_block: "test code_fence fenced_text"
  by (simp add: rx_eval fenced_text_def faucet_text_def code_fence_def)

lemma fenced_table_line: "list_ex is_table_line (split_on 10 fenced_text)"
  by (simp add: rx_eval fenced_text_def faucet_text_def is_table_line_def trim_def)

lemma fenced_length: "length fenced_text = 73"
  by (simp add: fenced_text_def faucet_text_def asc_def)

subsection \<open>A message with two patterns of one category\<close>

lemma rate_waiting: "scan_entry rate_text waiting_for_user st = st"
  by (simp add: rx_eval table_eval rate_text_def waiting_for_user_def)

lemma rate_funding: "scan_entry rate_text funding_needed st = st"
  by (simp add: rx_eval table_eval rate_text_def funding_needed_def)

lemma rate_external: "scan_entry rate_text external_action st = st"
  by (simp add: rx_eval table_eval rate_text_def external_action_def)

lemma rate_rate:
  "scan_entry rate_text rate_limited \<lparr>matched = [], primaryCategory = None, extracted = []\<rparr> =
     \<lparr>matched = [asc ''rate_limited:rate.?limit'', asc ''rate_limited:too many requests''],
      primaryCategory = Some (asc ''rate_limited''), extracted = []\<rparr>"
  by (simp add: rx_eval table_eval rate_text_def rate_limited_def)

lemma rate_permission: "scan_entry rate_text permission_needed st = st"
  by (simp add: rx_eval table_eval rate_text_def permission_needed_def)

lemma rate_scan:
  "scan BLOCKER_PATTERNS rate_text =
     \<lparr>matched = [asc ''rate_limited:rate.?limit'', asc ''rate_limited:too many requests''],
      primaryCategory = Some (asc ''rate_limited''), extracted = []\<rparr>"
  by (simp add: scan_def BLOCKER_PATTERNS_def rate_waiting rate_funding rate_external rate_rate
      rate_permission)

lemma rate_clean: "cleanText rate_text = rate_text"
  by (simp add: rx_eval rate_text_def cleanText_def code_fence_def is_table_line_def trim_def)

lemma rate_length: "length rate_text = 33"
  by (simp add: rate_text_def asc_def)

subsection \<open>Other messages\<close>

lemma list_item_is_list: "isLikelyListItem list_item_text"
  by (simp add: rx_eval list_item_text_def isLikelyListItem_def is_list_line_def trim_def
      list_marker_def numbered_marker_def list_header_def)

lemma list_item_no_completion: "\<not> hasCompletionSignal list_item_text"
  by (simp add: rx_eval list_item_text_def hasCompletionSignal_def COMPLETION_SIGNALS_def)

lemma list_item_nonempty: "list_item_text \<noteq> []"
  by (simp add: list_item_text_def asc_def)

lemma completion_signal: "hasCompletionSignal completion_text"
  by (simp add: rx_eval completion_text_def hasCompletionSignal_def COMPLETION_SIGNALS_def)

lemma completion_nonempty: "completion_text \<noteq> []"
  by (simp add: completion_text_def asc_def)

lemma long_sentence_found: "find has_blocker_keyword (sentences long_sentence) = Some long_sentence"
  by (simp add: rx_eval long_sentence_def sentences_def split_re_def sentence_end_def
      trim_def has_blocker_keyword_def toLowerCase_def lower_cu_def)

lemma long_sentence_trim: "trim long_sentence = long_sentence"
  by (simp add: long_sentence_def trim_def asc_def is_space_def)

lemma long_sentence_length: "length long_sentence = 176"
  by (simp add: long_sentence_def asc_def)

lemma bare_token: "match_group1 resume_pattern bare_resume_message = Some (Some (asc ''123e4567-e89b-12d3-a456-426614174000''))"
  by (simp add: rx_eval bare_resume_message_def resume_pattern_def rep_numeral)

lemma bare_no_ctx: "match_group1 ctx_pattern bare_resume_message = None"
  by (simp add: rx_eval bare_resume_message_def ctx_pattern_def)

lemma bare_no_header: "match_group1 header_pattern bare_resume_message = None"
  by (simp add: rx_eval bare_resume_message_def header_pattern_def)

lemma bare_nonempty: "bare_resume_message \<noteq> []"
  by (simp add: bare_resume_message_def asc_def)

lemma other_ctx_parse:
  "parseResumeTokenFromMessage (Some other_ctx_message) =
     Some \<lparr>resumeToken = asc ''123e4567-e89b-12d3-a456-426614174000'', projectName = asc ''other''\<rparr>"
  by (simp add: rx_eval other_ctx_message_def resume_message_def parseResumeTokenFromMessage_def
      resume_pattern_def ctx_pattern_def header_pattern_def trim_def rep_numeral)

lemma earlier_hint_parse:
  "parseResumeTokenFromMessage (Some earlier_hint_message) =
     Some \<lparr>resumeToken = asc ''00000000-0000-0000-0000-000000000000'', projectName = asc ''my-project @main''\<rparr>"
  by (simp add: rx_eval earlier_hint_message_def resume_message_def parseResumeTokenFromMessage_def
      resume_pattern_def ctx_pattern_def header_pattern_def trim_def rep_numeral)

section \<open>Facts about strings\<close>

lemma startsWith_append: "startsWith (sub @ rest) sub"
  by (induction sub) simp_all

lemma str_includes_suffix: "str_includes s sub \<Longrightarrow> str_includes (pre @ s) sub"
proof (induction pre)
  case Nil
  then show ?case by simp
next
  case (Cons c pre)
  then show ?case by simp
qed

lemma str_includes_here: "str_includes (sub @ rest) sub"
  by (cases "sub @ rest") (simp_all add: startsWith_append [of sub rest, simplified] flip: append_Cons,
      metis startsWith_append)

lemma split_on_not_Nil: "split_on d s \<noteq> []"
  by (induction s) (simp_all split: list.splits)

lemma split_on_no_sep: "l \<in> set (split_on d s) \<Longrightarrow> d \<notin> set l"
  by (induction s arbitrary: l) (auto split: if_splits list.splits)

lemma split_on_line: "d \<notin> set l \<Longrightarrow> split_on d l = [l]"
  by (induction l) auto

lemma split_on_append: "d \<notin> set l \<Longrightarrow> split_on d (l @ d # rest) = l # split_on d rest"
  by (induction l) (auto split: list.splits simp: split_on_not_Nil)

lemma split_on_join:
  "ls \<noteq> [] \<Longrightarrow> (\<forall>l \<in> set ls. d \<notin> set l) \<Longrightarrow> split_on d (join [d] ls) = ls"
proof (induction "[d]" ls rule: join.induct)
  case 1
  then show ?case by simp
next
  case (2 l)
  then show ?case by (simp add: split_on_line)
next
  case (3 l l' ls)
  then show ?case by (simp add: split_on_append)
qed

lemma no_table_line_empty: "\<not> is_table_line []"
  by (simp add: is_table_line_def trim_def asc_def)

lemma cleanText_lines: "l \<in> set (split_on 10 (cleanText t)) \<Longrightarrow> \<not> is_table_line l"
proof -
  assume l: "l \<in> set (split_on 10 (cleanText t))"
  define kept where "kept = filter (\<lambda>line. \<not> is_table_line line) (split_on 10 (replaceAll code_fence [] t))"
  have clean: "cleanText t = join [10] kept"
    by (simp add: cleanText_def kept_def)
  show ?thesis
  proof (cases "kept = []")
    case True
    then have "cleanText t = []" using clean by simp
    then have "l = []" using l by simp
    then show ?thesis by (simp add: no_table_line_empty)
  next
    case False
    have "\<forall>k \<in> set kept. 10 \<notin> set k"
      by (auto simp: kept_def dest: split_on_no_sep)
    then have "split_on 10 (cleanText t) = kept"
      using False clean split_on_join [of kept 10] by simp
    then have "l \<in> set kept" using l by simp
    then show ?thesis by (simp add: kept_def)
  qed
qed

section \<open>Facts about the matcher\<close>

lemma match_here_in_ms: "match_here p s = Some m \<Longrightarrow> m \<in> set (ms (body p) (ignoreCase p) (s, None))"
  by (auto simp: match_here_def split: list.splits)

lemma search_in_ms: "search p s = Some m \<Longrightarrow> \<exists>s'. m \<in> set (ms (body p) (ignoreCase p) (s', None))"
  by (induction s) (auto dest: match_here_in_ms split: option.splits)

lemma exec_in_ms: "exec p s = Some m \<Longrightarrow> \<exists>s'. m \<in> set (ms (body p) (ignoreCase p) (s', None))"
  by (auto simp: exec_def dest: match_here_in_ms search_in_ms split: if_splits)

text \<open>A pattern that opens with a literal matches only where the literal stands.\<close>

lemma strip_lit_startsWith: "strip_lit i l s = Some rest \<Longrightarrow> \<not> i \<Longrightarrow> startsWith s l"
  by (induction i l s rule: strip_lit.induct) (auto split: if_splits)

lemma ms_literal_first:
  assumes "ms (Seq (Str l) r) False (s, c) \<noteq> []"
  shows "startsWith s l"
proof (cases "strip_lit False l s")
  case None
  then show ?thesis using assms by simp
next
  case (Some rest)
  then show ?thesis by (rule strip_lit_startsWith) simp
qed

lemma match_here_literal_first:
  assumes "match_here \<lparr>ignoreCase = False, anchored = False, body = Seq (Str l) r\<rparr> s = Some m"
  shows "startsWith s l"
proof -
  have "m \<in> set (ms (body \<lparr>ignoreCase = False, anchored = False, body = Seq (Str l) r\<rparr>)
                   (ignoreCase \<lparr>ignoreCase = False, anchored = False, body = Seq (Str l) r\<rparr>) (s, None))"
    using assms by (rule match_here_in_ms)
  then have "ms (Seq (Str l) r) False (s, None) \<noteq> []"
    by (auto simp del: ms.simps)
  then show ?thesis by (rule ms_literal_first)
qed

lemma search_literal_first:
  "search \<lparr>ignoreCase = False, anchored = False, body = Seq (Str l) r\<rparr> s = Some m \<Longrightarrow> str_includes s l"
proof (induction s)
  case Nil
  then have "startsWith [] l" by (simp add: match_here_literal_first)
  then show ?case by (cases l) simp_all
next
  case (Cons c s)
  show ?case
  proof (cases "match_here \<lparr>ignoreCase = False, anchored = False, body = Seq (Str l) r\<rparr> (c # s)")
    case None
    then show ?thesis using Cons by simp
  next
    case (Some m')
    then have "startsWith (c # s) l" by (rule match_here_literal_first)
    then show ?thesis by simp
  qed
qed

text \<open>\<^verbatim>\<open>{n}\<close> of a character class reads exactly \<open>n\<close> code units.\<close>

lemma ms_rep_class:
  "m \<in> set (ms (rep n (Cls items)) i st) \<Longrightarrow> n \<le> length (fst st) \<and> m = (drop n (fst st), snd st)"
proof (induction n arbitrary: st)
  case 0
  then show ?case by (cases st) simp
next
  case (Suc n)
  obtain s c where st: "st = (s, c)" by (cases st)
  from Suc.prems st obtain x xs where s: "s = x # xs" and m: "m \<in> set (ms (rep n (Cls items)) i (xs, c))"
    by (cases s) (auto split: if_splits)
  from Suc.IH [OF m] show ?case by (simp add: st s)
qed


lemma startsWith_extend: "startsWith s sub \<Longrightarrow> startsWith (s @ post) sub"
  by (induction s sub rule: startsWith.induct) simp_all

lemma str_includes_extend: "str_includes s sub \<Longrightarrow> str_includes (s @ post) sub"
proof (induction s)
  case Nil
  then show ?case by (simp add: str_includes_here [of "[]", simplified])
next
  case (Cons c s)
  then show ?case by (auto simp: startsWith_extend [of "c # s" sub post, simplified])
qed

lemma join_member: "l \<in> set ls \<Longrightarrow> \<exists>pre post. join sep ls = pre @ l @ post"
proof (induction sep ls rule: join.induct)
  case (1 sep)
  then show ?case by simp
next
  case (2 sep l')
  then have "join sep [l'] = [] @ l @ []" by simp
  then show ?case by blast
next
  case (3 sep l1 l2 ls)
  show ?case
  proof (cases "l = l1")
    case True
    then have "join sep (l1 # l2 # ls) = [] @ l @ (sep @ join sep (l2 # ls))" by simp
    then show ?thesis by blast
  next
    case False
    then have "l \<in> set (l2 # ls)" using 3 by simp
    then obtain pre post where "join sep (l2 # ls) = pre @ l @ post" using 3 by blast
    then have "join sep (l1 # l2 # ls) = (l1 @ sep @ pre) @ l @ post" by simp
    then show ?thesis by blast
  qed
qed

lemma str_includes_join: "l \<in> set ls \<Longrightarrow> str_includes l sub \<Longrightarrow> str_includes (join sep ls) sub"
proof -
  assume "l \<in> set ls" and sub: "str_includes l sub"
  then obtain pre post where "join sep ls = pre @ l @ post" using join_member by blast
  moreover have "str_includes (pre @ l @ post) sub"
    by (rule str_includes_suffix) (rule str_includes_extend [OF sub])
  ultimately show ?thesis by simp
qed

section \<open>Facts about the scan\<close>

lemma try_pattern_inv: "scan_inv st \<Longrightarrow> scan_inv (try_pattern t entry pat st)"
  by (simp add: scan_inv_def try_pattern_def)

lemma fold_try_pattern_inv: "scan_inv st \<Longrightarrow> scan_inv (fold (try_pattern t entry) ps st)"
  by (induction ps arbitrary: st) (simp_all add: try_pattern_inv)

lemma fold_scan_entry_inv: "scan_inv st \<Longrightarrow> scan_inv (fold (scan_entry t) table st)"
  by (induction table arbitrary: st) (simp_all add: scan_entry_def fold_try_pattern_inv)

lemma scan_inv_scan: "scan_inv (scan table t)"
  unfolding scan_def by (rule fold_scan_entry_inv) (simp add: scan_inv_def)

lemma primary_matched: "primaryCategory (scan table t) = Some c \<Longrightarrow> matched (scan table t) \<noteq> []"
  using scan_inv_scan [of table t] by (simp add: scan_inv_def)

section \<open>Facts about the scan of the events\<close>

lemma first_blocker_source:
  "first_blocker es = Some b \<Longrightarrow>
     \<exists>e \<in> set es. \<exists>t. etext e = Some t \<and> t \<noteq> [] \<and> \<not> isLikelyListItem t \<and> detectBlocker t True = Some b"
  by (induction es) (auto split: option.splits if_splits)

lemma first_blocker_all_lists:
  "(\<And>e t. e \<in> set es \<Longrightarrow> etext e = Some t \<Longrightarrow> isLikelyListItem t) \<Longrightarrow> first_blocker es = None"
  by (induction es) (auto split: option.splits)

lemma set_recent:
  "set (recentAssistantMessages events n) \<subseteq> {e \<in> set events. etype e = AssistantMessage \<and> has_text e}"
  by (auto simp: recentAssistantMessages_def slice_from_def Let_def dest: in_set_dropD)

lemma last_recent:
  "recentAssistantMessages events n \<noteq> [] \<Longrightarrow>
   last (recentAssistantMessages events n) = last (filter (\<lambda>e. etype e = AssistantMessage \<and> has_text e) events)"
  by (simp add: recentAssistantMessages_def slice_from_def Let_def)

lemma recent_two: "recentAssistantMessages [assistant a, assistant b] 2 = [assistant a, assistant b]"
  if "a \<noteq> []" and "b \<noteq> []"
  using that by (simp add: recentAssistantMessages_def slice_from_def assistant_def has_text_def)

lemma recent_one: "recentAssistantMessages [assistant a] 2 = [assistant a]" if "a \<noteq> []"
  using that by (simp add: recentAssistantMessages_def slice_from_def assistant_def has_text_def)

lemma canned_reason_length: "length (canned_reason cat) \<le> 150"
  by (simp add: canned_reason_def asc_def)

lemma fenced_detect: "detectBlocker fenced_text ended = Some faucet_blocker"
  by (simp add: detectBlocker_def Let_def fenced_clean faucet_scan faucet_reason fenced_length
      canned_reason_def faucet_blocker_def)
    (simp add: fenced_text_def)

lemma skipped_list_item:
  "checkEventsForBlocker [assistant faucet_text, assistant list_item_text] 2 = Some faucet_blocker"
  by (simp add: checkEventsForBlocker_def Let_def recent_two faucet_nonempty list_item_nonempty
      list_item_no_completion list_item_is_list faucet_no_list faucet_detect)
    (simp add: assistant_def list_item_nonempty list_item_no_completion list_item_is_list faucet_no_list
      faucet_detect faucet_nonempty)

section \<open>Facts about the pre-filter\<close>

lemma strip_lit_exact:
  "strip_lit False l s = (if startsWith s l then Some (drop (length l) s) else None)"
  by (induction l arbitrary: s) (case_tac s; simp)+

lemma str_includes_rests: "str_includes s sub = list_ex (\<lambda>r. startsWith r sub) (rests s)"
  by (induction s) (auto, (case_tac sub; simp)+)

lemma any_unit: "class_has False [Sp, NSp] c"
  by (simp add: class_has_def)

lemma ms_any: "ms (Cls [Sp, NSp]) False (s, c) = (case s of [] \<Rightarrow> [] | x # xs \<Rightarrow> [(xs, c)])"
  by (simp add: any_unit split: list.split)

lemma lazy_loop_any:
  "length s \<le> n \<Longrightarrow> lazy_loop (ms (Cls [Sp, NSp]) False) n (s, c) = map (\<lambda>r. (r, c)) (rests s)"
proof (induction s arbitrary: n)
  case Nil
  then show ?case by (cases n) (simp_all add: ms_any del: ms.simps)
next
  case (Cons x xs)
  then obtain n' where n: "n = Suc n'" and "length xs \<le> n'" by (cases n) auto
  then show ?case using Cons.IH [of n'] by (simp add: ms_any del: ms.simps)
qed

lemma ms_fence_close:
  "ms (Seq (LazyStar (Cls [Sp, NSp])) (Str fence)) False (r, c) =
     concat (map (\<lambda>r'. if startsWith r' fence then [(drop 3 r', c)] else []) (rests r))"
proof -
  have "ms (Str fence) False (r', c) = (if startsWith r' fence then [(drop 3 r', c)] else [])" for r'
    by (simp add: strip_lit_exact fence_def numeral_3_eq_3)
  then show ?thesis
    by (simp add: lazy_loop_any comp_def del: ms.simps(1) ms.simps(2))
qed


lemma rests_length: "r \<in> set (rests s) \<Longrightarrow> length r \<le> length s"
  by (induction s) auto

lemma ms_code_fence:
  "ms (body code_fence) (ignoreCase code_fence) (s, None) =
     (if startsWith s fence
      then concat (map (\<lambda>r'. if startsWith r' fence then [(drop 3 r', None)] else []) (rests (drop 3 s)))
      else [])"
proof -
  have body: "body code_fence = Seq (Str fence) (Seq (LazyStar (Cls [Sp, NSp])) (Str fence))"
    by (simp add: code_fence_def rx_def str_def asc_def fence_def)
  have flag: "ignoreCase code_fence = False"
    by (simp add: code_fence_def rx_def)
  have "ms (Seq (Str fence) r) False (s, None) =
      (if startsWith s fence then ms r False (drop 3 s, None) else [])" for r
    by (simp add: strip_lit_exact fence_def numeral_3_eq_3)
  then show ?thesis
    unfolding body flag by (simp only: ms_fence_close)
qed

text \<open>The pattern of the pre-filter matches at the start of a text exactly when a fence opens
  the text and another one follows; what it leaves is shorter than the text.\<close>

lemma concat_hits_empty:
  "(concat (map (\<lambda>r. if P r then [f r] else []) rs) = []) = (\<not> list_ex P rs)"
  by (induction rs) auto

lemma match_here_code_fence:
  "(match_here code_fence s = None) = (\<not> (startsWith s fence \<and> str_includes (drop 3 s) fence))"
proof -
  have "(match_here code_fence s = None) = (ms (body code_fence) (ignoreCase code_fence) (s, None) = [])"
    by (simp add: match_here_def split: list.split)
  also have "\<dots> = (\<not> (startsWith s fence \<and> list_ex (\<lambda>r. startsWith r fence) (rests (drop 3 s))))"
  proof (cases "startsWith s fence")
    case True
    then show ?thesis
      using concat_hits_empty [of "\<lambda>r. startsWith r fence" "\<lambda>r. (drop 3 r, None)" "rests (drop 3 s)"]
      by (simp only: ms_code_fence if_True simp_thms)
  next
    case False
    then show ?thesis by (simp only: ms_code_fence if_False simp_thms)
  qed
  finally show ?thesis by (simp only: str_includes_rests)
qed

lemma match_here_code_fence_shorter:
  assumes "match_here code_fence s = Some m"
  shows "length (fst m) < length s"
proof -
  from assms have "m \<in> set (ms (body code_fence) (ignoreCase code_fence) (s, None))"
    by (rule match_here_in_ms)
  then obtain r' where "startsWith s fence" and "r' \<in> set (rests (drop 3 s))" and "fst m = drop 3 r'"
    and "startsWith r' fence"
    by (auto simp: ms_code_fence split: if_splits)
  moreover from this have "3 \<le> length r'"
    by (cases r'; cases "tl r'"; cases "tl (tl r')") (auto simp: fence_def)
  ultimately show ?thesis using rests_length [of r' "drop 3 s"] by simp
qed

lemma test_code_fence: "test code_fence s = has_fenced_block s"
proof -
  have "(search code_fence s \<noteq> None) = has_fenced_block s"
  proof (induction s)
    case Nil
    then show ?case using match_here_code_fence [of "[]"] by (simp add: fence_def)
  next
    case (Cons c cs)
    then show ?case using match_here_code_fence [of "c # cs"]
      by (cases "match_here code_fence (c # cs)") auto
  qed
  then show ?thesis by (simp add: test_def exec_def code_fence_def rx_def)
qed


lemma str_includes_Cons: "str_includes cs sub \<Longrightarrow> str_includes (c # cs) sub"
  by simp

lemma str_includes_drop: "str_includes (drop k s) sub \<Longrightarrow> str_includes s sub"
proof (induction s arbitrary: k)
  case Nil
  then show ?case by simp
next
  case (Cons c cs)
  then show ?case by (cases k) auto
qed

text \<open>The replacement, step by step.\<close>

lemma strip_open:
  "match_here code_fence (c # cs) = None \<Longrightarrow>
     replaceAll code_fence [] (c # cs) = c # replaceAll code_fence [] cs"
  by simp

lemma strip_block:
  "match_here code_fence (c # cs) = Some m \<Longrightarrow>
     replaceAll code_fence [] (c # cs) = replaceAll code_fence [] (fst m)"
  using match_here_code_fence_shorter [of "c # cs" m] by simp

lemma strip_empty: "replaceAll code_fence [] [] = []"
  by (cases "match_here code_fence []") simp_all

lemma no_fence_no_match: "\<not> str_includes s fence \<Longrightarrow> match_here code_fence s = None"
  by (cases s) (auto simp: match_here_code_fence fence_def)

lemma replaceAll_no_fence: "\<not> str_includes s fence \<Longrightarrow> replaceAll code_fence [] s = s"
proof (induction s)
  case Nil
  show ?case by (rule strip_empty)
next
  case (Cons c cs)
  then have "match_here code_fence (c # cs) = None" by (simp add: no_fence_no_match del: str_includes.simps)
  then show ?case using Cons by (simp add: strip_open del: replaceAll.simps)
qed

text \<open>Backquotes in front of the replaced text open a fence only if they did so in front of
  the text.\<close>

lemma startsWith_backquotes:
  "startsWith (replicate n 96 @ replaceAll code_fence [] s) fence \<Longrightarrow> startsWith (replicate n 96 @ s) fence"
proof (induction s arbitrary: n rule: length_induct)
  case (1 s)
  show ?case
  proof (cases "3 \<le> n")
    case True
    then obtain k where "n = Suc (Suc (Suc k))" by (metis Suc_le_D numeral_3_eq_3 Suc_le_mono)
    then show ?thesis by (simp add: fence_def)
  next
    case False
    then have short: "n = 0 \<or> n = 1 \<or> n = 2" by arith
    show ?thesis
    proof (cases s)
      case Nil
      then show ?thesis using "1.prems" by (simp add: strip_empty del: replaceAll.simps)
    next
      case (Cons c cs)
      show ?thesis
      proof (cases "match_here code_fence s")
        case None
        then have out: "replaceAll code_fence [] s = c # replaceAll code_fence [] cs"
          using Cons by (simp add: strip_open del: replaceAll.simps)
        with "1.prems" short have c: "c = 96"
          by (auto simp: fence_def numeral_2_eq_2)
        have more: "startsWith (replicate (Suc n) 96 @ replaceAll code_fence [] cs) fence"
          using "1.prems" out c by (simp add: replicate_app_Cons_same)
        have "length cs < length s" using Cons by simp
        with "1.IH" have "startsWith (replicate (Suc n) 96 @ replaceAll code_fence [] cs) fence
            \<longrightarrow> startsWith (replicate (Suc n) 96 @ cs) fence"
          by blast
        with more have "startsWith (replicate (Suc n) 96 @ cs) fence" by blast
        then show ?thesis using Cons c by (simp add: replicate_app_Cons_same)
      next
        case (Some m)
        then have "startsWith s fence" using match_here_code_fence [of s] by auto
        then obtain r where "s = 96 # 96 # 96 # r"
          by (cases s; cases "tl s"; cases "tl (tl s)") (auto simp: fence_def)
        then show ?thesis using short
          by (auto simp: fence_def numeral_2_eq_2)
      qed
    qed
  qed
qed

lemma has_fenced_block_Cons:
  "has_fenced_block (c # cs) =
     ((startsWith (c # cs) fence \<and> str_includes (drop 3 (c # cs)) fence) \<or> has_fenced_block cs)"
  by simp

lemma replaceAll_no_block: "\<not> has_fenced_block (replaceAll code_fence [] s)"
proof (induction s rule: length_induct)
  case (1 s)
  show ?case
  proof (cases s)
    case Nil
    then show ?thesis by (simp add: strip_empty del: replaceAll.simps)
  next
    case (Cons c cs)
    show ?thesis
    proof (cases "match_here code_fence s")
      case (Some m)
      then have "replaceAll code_fence [] s = replaceAll code_fence [] (fst m)"
        using Cons strip_block by simp
      moreover have "length (fst m) < length s"
        using Some by (rule match_here_code_fence_shorter)
      ultimately show ?thesis using "1.IH" by simp
    next
      case None
      then have out: "replaceAll code_fence [] s = c # replaceAll code_fence [] cs"
        using Cons by (simp add: strip_open del: replaceAll.simps)
      have rest: "\<not> has_fenced_block (replaceAll code_fence [] cs)"
        using "1.IH" Cons by simp
      have "\<not> (startsWith (c # replaceAll code_fence [] cs) fence
               \<and> str_includes (drop 3 (c # replaceAll code_fence [] cs)) fence)"
      proof
        assume opened: "startsWith (c # replaceAll code_fence [] cs) fence
               \<and> str_includes (drop 3 (c # replaceAll code_fence [] cs)) fence"
        then have c: "c = 96" by (simp add: fence_def)
        have "startsWith (replicate 1 96 @ replaceAll code_fence [] cs) fence"
          using opened c by simp
        then have "startsWith (replicate 1 96 @ cs) fence"
          by (rule startsWith_backquotes)
        then have start: "startsWith s fence" using Cons c by simp
        then have no_close: "\<not> str_includes (drop 3 s) fence"
          using None match_here_code_fence [of s] by simp
        from start obtain r where s: "s = 96 # 96 # 96 # r"
          by (cases s; cases "tl s"; cases "tl (tl s)") (auto simp: fence_def)
        then have r: "\<not> str_includes r fence" using no_close by simp
        have cs: "cs = 96 # 96 # r" using s Cons by simp
        have "match_here code_fence (96 # r) = None"
          using r by (auto simp: match_here_code_fence fence_def numeral_3_eq_3 dest: str_includes_drop)
        moreover have "match_here code_fence (96 # 96 # r) = None"
          using r by (auto simp: match_here_code_fence fence_def numeral_3_eq_3 dest: str_includes_drop)
        ultimately have "replaceAll code_fence [] cs = 96 # 96 # r"
          using cs r by (simp add: strip_open replaceAll_no_fence del: replaceAll.simps)
        then show False using opened r by (simp add: numeral_3_eq_3)
      qed
      then show ?thesis using out rest by (simp only: has_fenced_block_Cons simp_thms)
    qed
  qed
qed


text \<open>A fence does not cross a line break, so dropping lines makes no fenced block.\<close>

lemma startsWith_fence_sep: "startsWith (x @ 10 # y) fence = startsWith x fence"
  by (cases x; cases "tl x"; cases "tl (tl x)") (auto simp: fence_def)

lemma startsWith_fence_drop: "startsWith x fence \<Longrightarrow> drop 3 (x @ y) = drop 3 x @ y"
  by (cases x; cases "tl x"; cases "tl (tl x)") (auto simp: fence_def)

lemma fence_sep: "str_includes (x @ 10 # y) fence = (str_includes x fence \<or> str_includes y fence)"
proof (induction x)
  case Nil
  then show ?case by (simp add: fence_def)
next
  case (Cons c x)
  have "startsWith ((c # x) @ 10 # y) fence = startsWith (c # x) fence"
    by (rule startsWith_fence_sep)
  then show ?case using Cons by auto
qed

lemma block_sep:
  "has_fenced_block (x @ 10 # y) =
     (has_fenced_block x \<or> has_fenced_block y \<or> (str_includes x fence \<and> str_includes y fence))"
proof (induction x)
  case Nil
  then show ?case by (simp add: fence_def)
next
  case (Cons c x)
  have start: "startsWith ((c # x) @ 10 # y) fence = startsWith (c # x) fence"
    by (rule startsWith_fence_sep)
  have "startsWith (c # x) fence \<Longrightarrow>
      str_includes (drop 3 ((c # x) @ 10 # y)) fence =
        (str_includes (drop 3 (c # x)) fence \<or> str_includes y fence)"
    by (simp only: startsWith_fence_drop fence_sep)
  moreover have "has_fenced_block ((c # x) @ 10 # y) =
      ((startsWith ((c # x) @ 10 # y) fence \<and> str_includes (drop 3 ((c # x) @ 10 # y)) fence)
       \<or> has_fenced_block (x @ 10 # y))"
    by simp
  moreover have "has_fenced_block (c # x) =
      ((startsWith (c # x) fence \<and> str_includes (drop 3 (c # x)) fence) \<or> has_fenced_block x)"
    by simp
  moreover have "str_includes (c # x) fence = (startsWith (c # x) fence \<or> str_includes x fence)"
    by simp
  moreover have "str_includes (drop 3 (c # x)) fence \<Longrightarrow> str_includes x fence"
    using str_includes_drop [of 2 x fence] by (simp add: numeral_3_eq_3 numeral_2_eq_2)
  ultimately show ?case using Cons.IH start by blast
qed

lemma join_Cons: "join sep (l # ls) = (if ls = [] then l else l @ sep @ join sep ls)"
  by (cases ls) simp_all

lemma filter_lines_fence:
  "(str_includes (join [10] (filter P ls)) fence \<longrightarrow> str_includes (join [10] ls) fence)
   \<and> (has_fenced_block (join [10] (filter P ls)) \<longrightarrow> has_fenced_block (join [10] ls))"
proof (induction ls)
  case Nil
  then show ?case by simp
next
  case (Cons l ls)
  show ?case
  proof (cases "ls = []")
    case True
    then show ?thesis by (simp add: fence_def)
  next
    case False
    then have whole: "join [10] (l # ls) = l @ 10 # join [10] ls"
      by (simp add: join_Cons)
    show ?thesis
    proof (cases "P l")
      case drop_line: False
      then show ?thesis using Cons.IH by (simp only: whole filter.simps if_False fence_sep block_sep) blast
    next
      case keep: True
      show ?thesis
      proof (cases "filter P ls = []")
        case True
        then have "join [10] (filter P (l # ls)) = l" using keep by simp
        then show ?thesis by (simp only: whole fence_sep block_sep) blast
      next
        case False
        then have "join [10] (filter P (l # ls)) = l @ 10 # join [10] (filter P ls)"
          using keep by (simp add: join_Cons)
        then show ?thesis using Cons.IH by (simp only: whole fence_sep block_sep) blast
      qed
    qed
  qed
qed

lemma join_split_on: "join [d] (split_on d s) = s"
proof (induction s)
  case Nil
  then show ?case by simp
next
  case (Cons c s)
  then show ?case
    by (cases "split_on d s") (auto simp: join_Cons split_on_not_Nil)
qed

lemma cleanText_no_block: "\<not> has_fenced_block (cleanText t)"
proof -
  let ?stripped = "replaceAll code_fence [] t"
  have "\<not> has_fenced_block (join [10] (split_on 10 ?stripped))"
    by (simp only: join_split_on replaceAll_no_block simp_thms)
  then show ?thesis
    using filter_lines_fence [of "\<lambda>line. \<not> is_table_line line" "split_on 10 ?stripped"]
    by (auto simp: cleanText_def)
qed

lemma cleanText_no_code_fence: "\<not> test code_fence (cleanText t)"
  by (simp only: test_code_fence cleanText_no_block simp_thms)

text \<open>The blocks of a text: what the replacement takes out and what it keeps.\<close>

lemma startsWith_before_fence:
  "x \<noteq> [] \<Longrightarrow> startsWith (x @ fence @ r) fence = startsWith (x @ [96, 96]) fence"
  by (cases x; cases "tl x"; cases "tl (tl x)") (auto simp: fence_def)

lemma first_fence_after_Nil: "first_fence_after []"
  by (simp add: first_fence_after_def fence_def)

lemma first_fence_after_Cons:
  "first_fence_after (c # x) = (\<not> startsWith ((c # x) @ [96, 96]) fence \<and> first_fence_after x)"
  by (simp add: first_fence_after_def)

lemma replaceAll_keep: "\<not> has_fenced_block s \<Longrightarrow> replaceAll code_fence [] s = s"
proof (induction s)
  case Nil
  show ?case by (rule strip_empty)
next
  case (Cons c cs)
  then have "match_here code_fence (c # cs) = None"
    by (simp add: match_here_code_fence)
  then show ?case using Cons by (simp add: strip_open del: replaceAll.simps)
qed

lemma skip_kept:
  "first_fence_after p \<Longrightarrow>
     replaceAll code_fence [] (p @ fence @ r) = p @ replaceAll code_fence [] (fence @ r)"
proof (induction p)
  case Nil
  show ?case by simp
next
  case (Cons c p)
  then have "\<not> startsWith ((c # p) @ fence @ r) fence"
    using startsWith_before_fence [of "c # p" r] by (simp add: first_fence_after_Cons)
  then have "match_here code_fence (c # p @ fence @ r) = None"
    by (simp add: match_here_code_fence)
  then show ?case using Cons by (simp add: strip_open first_fence_after_Cons del: replaceAll.simps)
qed

lemma first_close:
  "first_fence_after u \<Longrightarrow>
     \<exists>more. concat (map (\<lambda>r'. if startsWith r' fence then [(drop 3 r', c)] else []) (rests (u @ fence @ r)))
       = (r, c) # more"
proof (induction u)
  case Nil
  have "rests (fence @ r) = (fence @ r) # rests (96 # 96 # r)"
    by (simp add: fence_def)
  moreover have "startsWith (fence @ r) fence" by (rule startsWith_append)
  moreover have "drop 3 (fence @ r) = r" by (simp add: fence_def)
  ultimately show ?case by simp
next
  case (Cons x u)
  then have "\<not> startsWith ((x # u) @ fence @ r) fence"
    using startsWith_before_fence [of "x # u" r] by (simp add: first_fence_after_Cons)
  then show ?case using Cons by (simp add: first_fence_after_Cons)
qed

lemma match_block:
  assumes "first_fence_after u"
  shows "match_here code_fence (fence @ u @ fence @ r) = Some (r, None)"
proof -
  have "startsWith (fence @ u @ fence @ r) fence" by (rule startsWith_append)
  moreover have "drop 3 (fence @ u @ fence @ r) = u @ fence @ r" by (simp add: fence_def)
  ultimately have "ms (body code_fence) (ignoreCase code_fence) (fence @ u @ fence @ r, None) =
      concat (map (\<lambda>r'. if startsWith r' fence then [(drop 3 r', None)] else []) (rests (u @ fence @ r)))"
    by (simp only: ms_code_fence if_True)
  moreover obtain more where
    "concat (map (\<lambda>r'. if startsWith r' fence then [(drop 3 r', None)] else []) (rests (u @ fence @ r)))
       = (r, None :: ustring option) # more"
    using first_close [OF assms, of None r] by blast
  ultimately have "ms (body code_fence) (ignoreCase code_fence) (fence @ u @ fence @ r, None) = (r, None) # more"
    by (rule trans)
  then show ?thesis by (simp only: match_here_def list.case)
qed

lemma strip_closed_block:
  assumes "first_fence_after u"
  shows "replaceAll code_fence [] (fence @ u @ fence @ r) = replaceAll code_fence [] r"
proof -
  have open_fence: "fence @ u @ fence @ r = 96 # (96 # 96 # u @ fence @ r)" for r
    by (simp add: fence_def)
  have found: "match_here code_fence (96 # (96 # 96 # u @ fence @ r)) = Some (r, None :: ustring option)"
    using match_block [OF assms, of r] by (simp only: open_fence)
  have "replaceAll code_fence [] (96 # (96 # 96 # u @ fence @ r)) = replaceAll code_fence [] r"
    using strip_block [OF found] by (simp only: fst_conv)
  then show ?thesis by (simp only: open_fence)
qed

lemma strip_blocks:
  "blocks_ok bs \<Longrightarrow> \<not> has_fenced_block tail \<Longrightarrow>
     replaceAll code_fence [] (with_blocks bs tail) = without_blocks bs tail"
proof (induction bs)
  case Nil
  then show ?case by (simp add: replaceAll_keep del: replaceAll.simps)
next
  case (Cons b bs)
  obtain p u where b: "b = (p, u)" by (cases b)
  from Cons.prems have p: "first_fence_after p" and u: "first_fence_after u" and rest: "blocks_ok bs"
    by (simp_all add: blocks_ok_def b)
  have "replaceAll code_fence [] (with_blocks (b # bs) tail) =
      p @ replaceAll code_fence [] (fence @ u @ fence @ with_blocks bs tail)"
    using skip_kept [OF p] by (simp add: b del: replaceAll.simps)
  also have "\<dots> = p @ replaceAll code_fence [] (with_blocks bs tail)"
    by (simp only: strip_closed_block [OF u])
  finally show ?case using Cons.IH [OF rest Cons.prems(2)] by (simp add: b)
qed

text \<open>Every text is made of blocks and a tail in this way.\<close>

lemma first_occurrence:
  "str_includes r fence \<Longrightarrow> \<exists>u rest. r = u @ fence @ rest \<and> first_fence_after u"
proof (induction r)
  case Nil
  then show ?case by (simp add: fence_def)
next
  case (Cons c r)
  show ?case
  proof (cases "startsWith (c # r) fence")
    case True
    then have "c # r = [] @ fence @ drop 3 (c # r)"
      by (cases r; cases "tl r") (auto simp: fence_def)
    then show ?thesis using first_fence_after_Nil by blast
  next
    case False
    then have "str_includes r fence" using Cons.prems by simp
    then obtain u rest where r: "r = u @ fence @ rest" and u: "first_fence_after u"
      using Cons.IH by blast
    have "\<not> startsWith ((c # u) @ [96, 96]) fence"
      using False startsWith_before_fence [of "c # u" rest] by (simp add: r)
    then have "first_fence_after (c # u)" using u by (simp add: first_fence_after_Cons)
    moreover have "c # r = (c # u) @ fence @ rest" by (simp add: r)
    ultimately show ?thesis by blast
  qed
qed

lemma first_block:
  "has_fenced_block t \<Longrightarrow>
     \<exists>p u rest. t = p @ fence @ u @ fence @ rest \<and> first_fence_after p \<and> first_fence_after u"
proof (induction t)
  case Nil
  then show ?case by simp
next
  case (Cons c t)
  show ?case
  proof (cases "startsWith (c # t) fence \<and> str_includes (drop 3 (c # t)) fence")
    case True
    then obtain u rest where "drop 3 (c # t) = u @ fence @ rest" and u: "first_fence_after u"
      using first_occurrence by blast
    moreover have "c # t = fence @ drop 3 (c # t)"
      using True by (cases t; cases "tl t") (auto simp: fence_def)
    ultimately have "c # t = [] @ fence @ u @ fence @ rest" by simp
    then show ?thesis using u first_fence_after_Nil by blast
  next
    case False
    with Cons.prems have "has_fenced_block t"
      unfolding has_fenced_block_Cons by blast
    then obtain p u rest where t: "t = p @ fence @ u @ fence @ rest"
      and p: "first_fence_after p" and u: "first_fence_after u"
      using Cons.IH by blast
    have closes: "str_includes (drop 3 (c # t)) fence"
    proof -
      define x where "x = p @ fence @ u"
      have "2 \<le> length x" by (simp add: x_def fence_def)
      then have "drop 2 (x @ fence @ rest) = drop 2 x @ fence @ rest" by simp
      moreover have "t = x @ fence @ rest" by (simp add: x_def t)
      ultimately have "drop 3 (c # t) = drop 2 x @ fence @ rest"
        by (simp add: numeral_3_eq_3 numeral_2_eq_2)
      moreover have "str_includes (fence @ rest) fence" by (rule str_includes_here)
      ultimately show ?thesis
        using str_includes_suffix [of "fence @ rest" fence "drop 2 x"] by simp
    qed
    have "startsWith ((c # p) @ fence @ (u @ fence @ rest)) fence = startsWith ((c # p) @ [96, 96]) fence"
      by (rule startsWith_before_fence) simp
    then have "\<not> startsWith ((c # p) @ [96, 96]) fence"
      using False closes by (simp add: t)
    then have "first_fence_after (c # p)" using p by (simp add: first_fence_after_Cons)
    moreover have "c # t = (c # p) @ fence @ u @ fence @ rest" by (simp add: t)
    ultimately show ?thesis using u by blast
  qed
qed

lemma blocks_exist:
  "\<exists>bs tail. t = with_blocks bs tail \<and> blocks_ok bs \<and> \<not> has_fenced_block tail"
proof (induction t rule: length_induct)
  case (1 t)
  show ?case
  proof (cases "has_fenced_block t")
    case False
    then have "t = with_blocks [] t \<and> blocks_ok [] \<and> \<not> has_fenced_block t"
      by (simp add: blocks_ok_def)
    then show ?thesis by blast
  next
    case True
    then obtain p u rest where t: "t = p @ fence @ u @ fence @ rest"
      and p: "first_fence_after p" and u: "first_fence_after u"
      using first_block by blast
    have "length rest < length t" by (simp add: t fence_def)
    then obtain bs tail where rest: "rest = with_blocks bs tail" and ok: "blocks_ok bs"
      and tail: "\<not> has_fenced_block tail"
      using "1.IH" by blast
    have "t = with_blocks ((p, u) # bs) tail" by (simp add: t rest)
    moreover have "blocks_ok ((p, u) # bs)" using p u ok by (simp add: blocks_ok_def)
    ultimately show ?thesis using tail by blast
  qed
qed

lemma without_blocks_concat: "without_blocks bs tail = concat (map fst bs) @ tail"
  by (induction bs tail rule: without_blocks.induct) simp_all

lemma cleanText_blocks:
  "blocks_ok bs \<Longrightarrow> \<not> has_fenced_block tail \<Longrightarrow>
     cleanText (with_blocks bs tail) =
       join [10] (filter (\<lambda>l. \<not> is_table_line l) (split_on 10 (without_blocks bs tail)))"
  by (simp add: cleanText_def strip_blocks del: replaceAll.simps)

text \<open>A fence that no other fence follows opens no block: the text is kept as it is.\<close>

lemma block_has_fence: "has_fenced_block s \<Longrightarrow> str_includes s fence"
  by (induction s) auto

lemma unclosed_fence_kept:
  assumes "\<not> str_includes s fence"
  shows "replaceAll code_fence [] (fence @ s) = fence @ s"
proof -
  have "\<not> str_includes (drop k s) fence" for k
    using assms str_includes_drop by blast
  from this [of 0] this [of 1] this [of 2] have "\<not> has_fenced_block (fence @ s)"
    using block_has_fence [of s] assms
    by (auto simp: fence_def numeral_3_eq_3 numeral_2_eq_2)
  then show ?thesis by (rule replaceAll_keep)
qed

section \<open>Facts about the router\<close>

lemma str_includes_line_start: "str_includes (a @ b @ c @ d @ rest) (a @ b @ c @ d)"
  using str_includes_here [of "a @ b @ c @ d" rest] by simp

lemma resume_request_names_token:
  "str_includes (resume_request p token proj) (asc ''- resumeToken: '' @ [34] @ token @ [34])"
proof -
  have request: "resume_request p token proj =
      buildResumeRequest \<lparr>action = resume_action, project = proj, task = Some (replyText p),
        requestResumeToken = Some token, worktree = None, quick = None,
        chatContext = Some \<lparr>ccChatId = String_of (chatId p), ccThreadId = threadId p,
                              ccAccountId = None, ccForcedResumeToken = None\<rparr>\<rparr>"
    by (simp add: resume_request_def buildPlanningRequest_def)
  show ?thesis
    unfolding request buildResumeRequest_def
    by (rule str_includes_join [where l = "asc ''- resumeToken: '' @ [34] @ token @ [34] @ asc '' '' @ [8592]
          @ asc '' MUST USE THIS EXACT TOKEN''"])
      (simp add: template_string_def, rule str_includes_line_start)
qed

lemma ms_Seq_elem: "m \<in> set (ms (Seq a b) i st) \<Longrightarrow> \<exists>st' \<in> set (ms a i st). m \<in> set (ms b i st')"
  by auto

lemma ms_Cap_elem:
  "m \<in> set (ms (Cap r) i st) \<Longrightarrow>
     \<exists>m' \<in> set (ms r i st). snd m = Some (take (length (fst st) - length (fst m')) (fst st))"
proof -
  assume "m \<in> set (ms (Cap r) i st)"
  then obtain m' where "m' \<in> set (ms r i st)"
    and "m = (fst m', Some (take (length (fst st) - length (fst m')) (fst st)))"
    by auto
  then show ?thesis by (intro bexI [of _ m']) simp_all
qed

lemma resume_pattern_token:
  assumes "match_group1 resume_pattern t = Some c"
  shows "\<exists>token. c = Some token \<and> length token = 36"
proof -
  let ?hex = "Cls [Rng 97 102, Rng 48 57, Ch 45]"
  from assms obtain m where m: "exec resume_pattern t = Some m" and c: "c = snd m"
    by (auto simp: match_group1_def)
  then obtain s where "m \<in> set (ms (body resume_pattern) (ignoreCase resume_pattern) (s, None))"
    using exec_in_ms by blast
  then have "m \<in> set (ms (Seq (Str (asc ''claude --resume '')) (Cap (rep 36 ?hex))) False (s, None))"
    by (simp add: resume_pattern_def rx_def str_def del: ms.simps rep.simps)
  then obtain st where "m \<in> set (ms (Cap (rep 36 ?hex)) False st)"
    using ms_Seq_elem by blast
  then obtain m' where m': "m' \<in> set (ms (rep 36 ?hex) False st)"
    and cap: "snd m = Some (take (length (fst st) - length (fst m')) (fst st))"
    using ms_Cap_elem by blast
  from ms_rep_class [OF m'] have "36 \<le> length (fst st)" and "fst m' = drop 36 (fst st)" by simp_all
  then have "length (take (length (fst st) - length (fst m')) (fst st)) = 36" by simp
  then show ?thesis using c cap by simp
qed

lemma resume_pattern_nonempty: "match_group1 resume_pattern [] = None"
  by (simp add: rx_eval resume_pattern_def rep_numeral)

text \<open>Without the marker \<^verbatim>\<open>ctx:\<close> the project pattern does not match.\<close>

lemma no_ctx_marker: "\<not> str_includes t (asc ''ctx:'') \<Longrightarrow> match_group1 ctx_pattern t = None"
proof (rule ccontr)
  assume no: "\<not> str_includes t (asc ''ctx:'')" and "match_group1 ctx_pattern t \<noteq> None"
  then obtain m where "exec ctx_pattern t = Some m" by (auto simp: match_group1_def)
  then have "search \<lparr>ignoreCase = False, anchored = False,
      body = Seq (Str (asc ''ctx:'')) (Seq (Star (Cls [Sp])) (Cap (Plus (NCls [Ch 10]))))\<rparr> t = Some m"
    by (simp add: exec_def ctx_pattern_def rx_def str_def)
  then have "str_includes t (asc ''ctx:'')" by (rule search_literal_first)
  then show False using no by simp
qed

text \<open>
  The parser reads the first match of each pattern. A pattern that opens with a literal
  text does not match before the first occurrence of that text.
\<close>

lemma startsWith_straddle: "startsWith (u @ x # r) l \<Longrightarrow> x \<notin> set l \<Longrightarrow> startsWith u l"
  by (induction u l rule: startsWith.induct) auto

lemma search_past:
  assumes "\<not> str_includes p (x # xs)" and "x \<notin> set xs"
  shows "search \<lparr>ignoreCase = False, anchored = False, body = Seq (Str (x # xs)) r\<rparr> (p @ x # rest) =
         search \<lparr>ignoreCase = False, anchored = False, body = Seq (Str (x # xs)) r\<rparr> (x # rest)"
  using assms(1)
proof (induction p)
  case Nil
  show ?case by simp
next
  case (Cons c p)
  let ?rx = "\<lparr>ignoreCase = False, anchored = False, body = Seq (Str (x # xs)) r\<rparr>"
  have "match_here ?rx (c # p @ x # rest) = None"
  proof (rule ccontr)
    assume "match_here ?rx (c # p @ x # rest) \<noteq> None"
    then obtain m where "match_here ?rx (c # p @ x # rest) = Some m" by blast
    then have "startsWith (c # p @ x # rest) (x # xs)" by (rule match_here_literal_first)
    then have "c = x" and "startsWith (p @ x # rest) xs" by simp_all
    then have "startsWith (c # p) (x # xs)"
      using startsWith_straddle [of p x rest xs] assms(2) by simp
    then show False using Cons.prems by simp
  qed
  moreover have "\<not> str_includes p (x # xs)" using Cons.prems by simp
  ultimately show ?case using Cons.IH by simp
qed

lemma search_found: "match_here p (c # cs) = Some m \<Longrightarrow> search p (c # cs) = Some m"
  by simp

text \<open>What a pattern reads at the start of a text that is made for it.\<close>

lemma ms_Str_here: "ms (Str l) False (l @ s, c) = [(s, c)]"
  by (simp add: strip_lit_exact startsWith_append)

lemma ms_rep_units:
  "list_all (class_has i items) u \<Longrightarrow> ms (rep (length u) (Cls items)) i (u @ q, c) = [(q, c)]"
  by (induction u) simp_all

lemma ms_Cap_here: "ms r i (u @ q, c) = (q, c') # others \<Longrightarrow> \<exists>others'. ms (Cap r) i (u @ q, c) = (q, Some u) # others'"
  by simp

lemma ms_Seq_single: "ms a i st = [m] \<Longrightarrow> ms (Seq a b) i st = ms b i m"
  by simp

lemma ms_Seq_head:
  "ms a i st = m # others \<Longrightarrow> ms b i m = m' # others' \<Longrightarrow> \<exists>rest. ms (Seq a b) i st = m' # rest"
  by simp

text \<open>The greedy loop over single code units reads all of them first.\<close>

lemma star_loop_units:
  assumes unit: "\<And>x xs c. f (x # xs, c) = (if P x then [(xs, c)] else [])"
    and none: "\<And>c. f ([], c) = []"
  shows "list_all P w \<Longrightarrow> rest = [] \<or> \<not> P (hd rest) \<Longrightarrow> length (w @ rest) \<le> n \<Longrightarrow>
     \<exists>others. star_loop f n (w @ rest, c) = (rest, c) # others"
proof (induction w arbitrary: n)
  case Nil
  show ?case
  proof (cases n)
    case 0
    then show ?thesis by simp
  next
    case (Suc n')
    have "f (rest, c) = []"
      using Nil.prems(2) by (cases rest) (simp_all add: unit none)
    then show ?thesis by (simp add: Suc)
  qed
next
  case (Cons x w)
  then obtain n' where n: "n = Suc n'" and len: "length (w @ rest) \<le> n'"
    by (cases n) auto
  from Cons.prems have "P x" and w: "list_all P w" by simp_all
  then have step: "f ((x # w) @ rest, c) = [(w @ rest, c)]"
    by (simp add: unit)
  obtain others where "star_loop f n' (w @ rest, c) = (rest, c) # others"
    using Cons.IH [OF w Cons.prems(2) len] by blast
  then show ?case using step by (simp add: n)
qed

lemma star_spaces:
  assumes "list_all is_space w" and "rest = [] \<or> \<not> is_space (hd rest)"
  shows "\<exists>others. ms (Star (Cls [Sp])) False (w @ rest, c) = (rest, c) # others"
proof -
  have unit: "ms (Cls [Sp]) False (x # xs, c) = (if is_space x then [(xs, c)] else [])" for x xs c
    by (simp add: class_has_def)
  have none: "ms (Cls [Sp]) False ([], c) = []" for c
    by simp
  have "\<exists>others. star_loop (ms (Cls [Sp]) False) (length (w @ rest)) (w @ rest, c) = (rest, c) # others"
    using unit none assms by (rule star_loop_units) simp
  then show ?thesis by simp
qed

lemma plus_line:
  assumes "name \<noteq> []" and "10 \<notin> set name" and "b = [] \<or> hd b = 10"
  shows "\<exists>others. ms (Plus (NCls [Ch 10])) False (name @ b, c) = (b, c) # others"
proof -
  obtain x name' where name: "name = x # name'" using assms(1) by (cases name) auto
  have x: "x \<noteq> 10" and name': "list_all (\<lambda>c. c \<noteq> 10) name'"
    using assms(2) by (auto simp: name list_all_iff)
  have unit: "ms (NCls [Ch 10]) False (y # ys, c) = (if y \<noteq> 10 then [(ys, c)] else [])" for y ys c
    by (auto simp: class_has_def)
  have none: "ms (NCls [Ch 10]) False ([], c) = []" for c
    by simp
  have "b = [] \<or> \<not> hd b \<noteq> 10" using assms(3) by simp
  with unit none name'
  have "\<exists>others. star_loop (ms (NCls [Ch 10]) False) (length (name' @ b)) (name' @ b, c) = (b, c) # others"
    by (rule star_loop_units) simp
  moreover have "ms (NCls [Ch 10]) False (name @ b, c) = [(name' @ b, c)]"
    using x by (simp add: name unit del: ms.simps)
  ultimately show ?thesis by (auto simp del: ms.simps(3))
qed

lemma resume_hint_here:
  assumes "length token = 36"
    and "\<forall>c \<in> set token. (97 \<le> c \<and> c \<le> 102) \<or> (48 \<le> c \<and> c \<le> 57) \<or> c = 45"
  shows "match_here resume_pattern (asc ''claude --resume '' @ token @ q) = Some (q, Some token)"
proof -
  let ?hex = "[Rng 97 102, Rng 48 57, Ch 45]"
  have "list_all (class_has False ?hex) token"
    using assms(2) by (auto simp: list_all_iff class_has_def)
  then have "ms (rep (length token) (Cls ?hex)) False (token @ q, None) = [(q, None)]"
    by (rule ms_rep_units)
  then have "ms (Cap (rep 36 (Cls ?hex))) False (token @ q, None) = [(q, Some token)]"
    by (simp add: assms(1) del: rep.simps)
  moreover have "ms (Str (asc ''claude --resume '')) False (asc ''claude --resume '' @ token @ q, None) =
      [(token @ q, None)]"
    by (rule ms_Str_here)
  ultimately have "ms (Seq (Str (asc ''claude --resume '')) (Cap (rep 36 (Cls ?hex)))) False
      (asc ''claude --resume '' @ token @ q, None) = [(q, Some token)]"
    by (simp only: ms_Seq_single)
  then show ?thesis
    by (simp add: match_here_def resume_pattern_def rx_def str_def del: ms.simps rep.simps)
qed

lemma ctx_line_here:
  assumes "\<forall>c \<in> set w. is_space c" and "name \<noteq> []" and "\<not> is_space (hd name)" and "10 \<notin> set name"
    and "b = [] \<or> hd b = 10"
  shows "match_here ctx_pattern (asc ''ctx:'' @ w @ name @ b) = Some (b, Some name)"
proof -
  let ?spaces = "Star (Cls [Sp])"
  let ?line = "Plus (NCls [Ch 10])"
  have "list_all is_space w" using assms(1) by (simp add: list_all_iff)
  moreover have "name @ b = [] \<or> \<not> is_space (hd (name @ b))"
    using assms(2,3) by simp
  ultimately obtain others where spaces: "ms ?spaces False (w @ name @ b, None) = (name @ b, None) # others"
    using star_spaces by blast
  obtain others' where "ms ?line False (name @ b, None) = (b, None :: ustring option) # others'"
    using plus_line [OF assms(2,4,5)] by blast
  then obtain others'' where line: "ms (Cap ?line) False (name @ b, None) = (b, Some name) # others''"
    using ms_Cap_here by blast
  obtain rest where found: "ms (Seq ?spaces (Cap ?line)) False (w @ name @ b, None) = (b, Some name) # rest"
    using ms_Seq_head [OF spaces line] by blast
  have "ms (Str (asc ''ctx:'')) False (asc ''ctx:'' @ w @ name @ b, None) = [(w @ name @ b, None)]"
    by (rule ms_Str_here)
  then have "ms (Seq (Str (asc ''ctx:'')) (Seq ?spaces (Cap ?line))) False
      (asc ''ctx:'' @ w @ name @ b, None) = ms (Seq ?spaces (Cap ?line)) False (w @ name @ b, None)"
    by (rule ms_Seq_single)
  then have "ms (Seq (Str (asc ''ctx:'')) (Seq ?spaces (Cap ?line))) False
      (asc ''ctx:'' @ w @ name @ b, None) = (b, Some name) # rest"
    by (simp only: found)
  then show ?thesis
    by (simp add: match_here_def ctx_pattern_def rx_def str_def del: ms.simps)
qed

text \<open>The first resume hint and the first \<^verbatim>\<open>ctx:\<close> of a text are the ones that are read.\<close>

lemma resume_hint_first:
  assumes "\<not> str_includes p (asc ''claude --resume '')"
    and "length token = 36"
    and "\<forall>c \<in> set token. (97 \<le> c \<and> c \<le> 102) \<or> (48 \<le> c \<and> c \<le> 57) \<or> c = 45"
  shows "match_group1 resume_pattern (p @ asc ''claude --resume '' @ token @ q) = Some (Some token)"
proof -
  define r where "r = Cap (rep 36 (Cls [Rng 97 102, Rng 48 57, Ch 45]))"
  define xs where "xs = asc ''laude --resume ''"
  define rest where "rest = xs @ token @ q"
  have pat: "resume_pattern = \<lparr>ignoreCase = False, anchored = False, body = Seq (Str (99 # xs)) r\<rparr>"
    by (simp add: resume_pattern_def rx_def str_def asc_def xs_def r_def)
  have lit: "asc ''claude --resume '' = 99 # xs"
    by (simp add: asc_def xs_def)
  have hint: "asc ''claude --resume '' @ token @ q = 99 # rest"
    by (simp add: lit rest_def)
  have "99 \<notin> set xs"
    by (simp add: xs_def asc_def)
  moreover have "\<not> str_includes p (99 # xs)"
    using assms(1) unfolding lit .
  ultimately have "search resume_pattern (p @ 99 # rest) = search resume_pattern (99 # rest)"
    unfolding pat by (intro search_past)
  moreover have "match_here resume_pattern (99 # rest) = Some (q, Some token)"
    using resume_hint_here [OF assms(2,3), of q] by (simp only: hint)
  ultimately have "search resume_pattern (p @ 99 # rest) = Some (q, Some token)"
    by (simp only: search_found)
  moreover have "\<not> anchored resume_pattern" by (simp add: pat)
  ultimately show ?thesis by (simp add: match_group1_def exec_def hint)
qed

lemma ctx_line_first:
  assumes "\<not> str_includes a (asc ''ctx:'')"
    and "\<forall>c \<in> set w. is_space c" and "name \<noteq> []" and "\<not> is_space (hd name)" and "10 \<notin> set name"
    and "b = [] \<or> hd b = 10"
  shows "match_group1 ctx_pattern (a @ asc ''ctx:'' @ w @ name @ b) = Some (Some name)"
proof -
  define r where "r = Seq (Star (Cls [Sp])) (Cap (Plus (NCls [Ch 10])))"
  define xs where "xs = asc ''tx:''"
  define rest where "rest = xs @ w @ name @ b"
  have pat: "ctx_pattern = \<lparr>ignoreCase = False, anchored = False, body = Seq (Str (99 # xs)) r\<rparr>"
    by (simp add: ctx_pattern_def rx_def str_def asc_def xs_def r_def)
  have lit: "asc ''ctx:'' = 99 # xs"
    by (simp add: asc_def xs_def)
  have line: "asc ''ctx:'' @ w @ name @ b = 99 # rest"
    by (simp add: lit rest_def)
  have "99 \<notin> set xs"
    by (simp add: xs_def asc_def)
  moreover have "\<not> str_includes a (99 # xs)"
    using assms(1) unfolding lit .
  ultimately have "search ctx_pattern (a @ 99 # rest) = search ctx_pattern (99 # rest)"
    unfolding pat by (intro search_past)
  moreover have "match_here ctx_pattern (99 # rest) = Some (b, Some name)"
    using ctx_line_here [OF assms(2-6)] by (simp only: line)
  ultimately have "search ctx_pattern (a @ 99 # rest) = Some (b, Some name)"
    by (simp only: search_found)
  moreover have "\<not> anchored ctx_pattern" by (simp add: pat)
  ultimately show ?thesis by (simp add: match_group1_def exec_def line)
qed

section \<open>The claims\<close>

text \<open>
  C1. Strength policy of \<^verbatim>\<open>detectBlocker\<close>. Called with \<open>sessionEnded = False\<close> it returns a
  \<^verbatim>\<open>BlockerInfo\<close> only if at least two patterns matched (entries of \<open>matchedPatterns\<close>,
  whatever their categories) or the primary category is \<open>funding_needed\<close>; a text that
  reaches the pattern loops (20 code units or more) and has a \<open>funding_needed\<close> primary
  category is reported however few patterns matched, and so is one with two matched
  patterns; with \<open>sessionEnded = True\<close> any match is reported.
\<close>

theorem detectBlocker_strength:
  "(detectBlocker t False = Some b \<longrightarrow>
      matchedPatterns b = matched (scan BLOCKER_PATTERNS (cleanText t)) \<and>
      (2 \<le> length (matchedPatterns b) \<or>
       primaryCategory (scan BLOCKER_PATTERNS (cleanText t)) = Some (asc ''funding_needed'')))
   \<and> (20 \<le> length t \<and> primaryCategory (scan BLOCKER_PATTERNS (cleanText t)) = Some (asc ''funding_needed'')
        \<longrightarrow> detectBlocker t False \<noteq> None)
   \<and> (20 \<le> length t \<and> 2 \<le> length (matched (scan BLOCKER_PATTERNS (cleanText t)))
        \<longrightarrow> detectBlocker t False \<noteq> None)
   \<and> (20 \<le> length t \<and> matched (scan BLOCKER_PATTERNS (cleanText t)) \<noteq> []
        \<longrightarrow> detectBlocker t True \<noteq> None)"
proof -
  have only_if: "detectBlocker t False = Some b \<longrightarrow>
      matchedPatterns b = matched (scan BLOCKER_PATTERNS (cleanText t)) \<and>
      (2 \<le> length (matchedPatterns b) \<or>
       primaryCategory (scan BLOCKER_PATTERNS (cleanText t)) = Some (asc ''funding_needed''))"
    by (auto simp: detectBlocker_def Let_def split: if_splits)
  have funding: "20 \<le> length t \<and> primaryCategory (scan BLOCKER_PATTERNS (cleanText t)) = Some (asc ''funding_needed'')
        \<longrightarrow> detectBlocker t False \<noteq> None"
    using primary_matched [of BLOCKER_PATTERNS "cleanText t"]
    by (auto simp: detectBlocker_def Let_def)
  have multiple: "20 \<le> length t \<and> 2 \<le> length (matched (scan BLOCKER_PATTERNS (cleanText t)))
        \<longrightarrow> detectBlocker t False \<noteq> None"
    by (auto simp: detectBlocker_def Let_def)
  have ended: "20 \<le> length t \<and> matched (scan BLOCKER_PATTERNS (cleanText t)) \<noteq> []
        \<longrightarrow> detectBlocker t True \<noteq> None"
    by (auto simp: detectBlocker_def Let_def)
  from only_if funding multiple ended show ?thesis by blast
qed

theorem detectBlocker_strength_witness:
  "detectBlocker faucet_text False = Some faucet_blocker
   \<and> length (matchedPatterns faucet_blocker) = 1
   \<and> primaryCategory (scan BLOCKER_PATTERNS (cleanText faucet_text)) = Some (asc ''funding_needed'')
   \<and> 20 \<le> length faucet_text
   \<and> detectBlocker faucet_text True \<noteq> None
   \<and> 20 \<le> length rate_text
   \<and> matched (scan BLOCKER_PATTERNS (cleanText rate_text)) =
       [asc ''rate_limited:rate.?limit'', asc ''rate_limited:too many requests'']
   \<and> detectBlocker rate_text False \<noteq> None"
  using detectBlocker_strength [of faucet_text faucet_blocker] detectBlocker_strength [of rate_text faucet_blocker]
  by (simp add: faucet_detect faucet_clean faucet_scan faucet_length rate_clean rate_scan rate_length
      faucet_blocker_def)

text \<open>
  C2. Completion veto. When the most recent assistant message with text holds a completion
  signal, \<^verbatim>\<open>checkEventsForBlocker\<close> returns nothing, whatever the other messages hold and
  whatever the window \<open>lastNEvents\<close>.
\<close>

theorem completion_veto:
  assumes "msgs = filter (\<lambda>e. etype e = AssistantMessage \<and> has_text e) events"
    and "msgs \<noteq> []"
    and "etext (last msgs) = Some t"
    and "hasCompletionSignal t"
  shows "checkEventsForBlocker events n = None"
proof (cases "recentAssistantMessages events n = []")
  case True
  then show ?thesis by (simp add: checkEventsForBlocker_def)
next
  case False
  have "last msgs \<in> set msgs" using assms(2) by simp
  then have "has_text (last msgs)" using assms(1) by auto
  then have "t \<noteq> []" using assms(3) by (simp add: has_text_def)
  moreover have "last (recentAssistantMessages events n) = last msgs"
    using last_recent [OF False] assms(1) by simp
  ultimately show ?thesis
    using False assms(3,4) by (simp add: checkEventsForBlocker_def Let_def)
qed

theorem completion_veto_witness:
  "hasCompletionSignal completion_text
   \<and> detectBlocker faucet_text True = Some faucet_blocker
   \<and> checkEventsForBlocker [assistant faucet_text, assistant completion_text] 2 = None"
proof -
  have msgs: "[assistant faucet_text, assistant completion_text] =
      filter (\<lambda>e. etype e = AssistantMessage \<and> has_text e) [assistant faucet_text, assistant completion_text]"
    by (simp add: assistant_def has_text_def faucet_nonempty completion_nonempty)
  have last_text: "etext (last [assistant faucet_text, assistant completion_text]) = Some completion_text"
    by (simp add: assistant_def)
  have "checkEventsForBlocker [assistant faucet_text, assistant completion_text] 2 = None"
    by (rule completion_veto [OF msgs _ last_text completion_signal]) simp
  then show ?thesis by (simp add: completion_signal faucet_detect)
qed

text \<open>
  C3. The funding scenario. For the single assistant message
  \<^verbatim>\<open>Need 2 SOL to proceed, current balance 0.1 SOL\<close> the code returns no \<^verbatim>\<open>BlockerInfo\<close>: none of
  the patterns of \<^verbatim>\<open>BLOCKER_PATTERNS\<close> matches the text, so the extractors never run. The
  extractors of \<open>funding_needed\<close> would read \<open>2\<close> and \<open>0.1\<close> from it, and the funding pattern
  of the Level 2 heuristic matches it.
\<close>

theorem funding_scenario_undetected:
  "checkEventsForBlocker [assistant funding_scenario_text] 2 = None
   \<and> detectBlocker funding_scenario_text True = None
   \<and> matched (scan BLOCKER_PATTERNS (cleanText funding_scenario_text)) = []
   \<and> match_group1 needed_extractor funding_scenario_text = Some (Some (asc ''2''))
   \<and> match_group1 current_extractor funding_scenario_text = Some (Some (asc ''0.1''))
   \<and> test assessor_funding funding_scenario_text"
  by (simp add: checkEventsForBlocker_def Let_def recent_one scenario_nonempty scenario_no_completion
      scenario_no_list scenario_detect scenario_clean scenario_scan scenario_needed scenario_current
      scenario_assessor)
    (simp add: assistant_def scenario_nonempty scenario_no_completion scenario_no_list scenario_detect)

text \<open>
  C4. List-item suppression. A \<^verbatim>\<open>BlockerInfo\<close> returned by \<^verbatim>\<open>checkEventsForBlocker\<close> always
  comes from \<^verbatim>\<open>detectBlocker\<close> on an assistant message that is not list-like; when every
  message is list-like nothing is returned; the bullet line of the spec yields nothing.
\<close>

theorem list_items_never_promoted:
  "(checkEventsForBlocker events n = Some b \<longrightarrow>
      (\<exists>e \<in> set events. \<exists>t. etype e = AssistantMessage \<and> etext e = Some t \<and> \<not> isLikelyListItem t
          \<and> detectBlocker t True = Some b))
   \<and> ((\<forall>e \<in> set events. \<forall>t. etext e = Some t \<longrightarrow> isLikelyListItem t)
        \<longrightarrow> checkEventsForBlocker events n = None)
   \<and> checkEventsForBlocker [assistant list_item_text] 2 = None"
proof -
  have source: "checkEventsForBlocker events n = Some b \<longrightarrow>
      (\<exists>e \<in> set events. \<exists>t. etype e = AssistantMessage \<and> etext e = Some t \<and> \<not> isLikelyListItem t
          \<and> detectBlocker t True = Some b)"
  proof
    assume "checkEventsForBlocker events n = Some b"
    then have "first_blocker (rev (recentAssistantMessages events n)) = Some b"
      by (simp add: checkEventsForBlocker_def Let_def split: if_splits)
    then obtain e t where "e \<in> set (recentAssistantMessages events n)" and "etext e = Some t"
      and "\<not> isLikelyListItem t" and "detectBlocker t True = Some b"
      using first_blocker_source by fastforce
    moreover from this have "e \<in> set events" and "etype e = AssistantMessage"
      using set_recent [of events n] by auto
    ultimately show "\<exists>e \<in> set events. \<exists>t. etype e = AssistantMessage \<and> etext e = Some t
        \<and> \<not> isLikelyListItem t \<and> detectBlocker t True = Some b"
      by blast
  qed
  have all_lists: "(\<forall>e \<in> set events. \<forall>t. etext e = Some t \<longrightarrow> isLikelyListItem t)
        \<longrightarrow> checkEventsForBlocker events n = None"
  proof
    assume lists: "\<forall>e \<in> set events. \<forall>t. etext e = Some t \<longrightarrow> isLikelyListItem t"
    have "first_blocker (rev (recentAssistantMessages events n)) = None"
    proof (rule first_blocker_all_lists)
      fix e t
      assume "e \<in> set (rev (recentAssistantMessages events n))" and "etext e = Some t"
      then show "isLikelyListItem t" using lists set_recent [of events n] by auto
    qed
    then show "checkEventsForBlocker events n = None"
      by (simp add: checkEventsForBlocker_def Let_def)
  qed
  have example: "checkEventsForBlocker [assistant list_item_text] 2 = None"
    by (simp add: checkEventsForBlocker_def Let_def recent_one list_item_nonempty list_item_no_completion)
      (simp add: assistant_def list_item_nonempty list_item_is_list)
  from source all_lists example show ?thesis by blast
qed

theorem list_items_never_promoted_witness:
  "checkEventsForBlocker [assistant faucet_text, assistant list_item_text] 2 = Some faucet_blocker
   \<and> isLikelyListItem list_item_text
   \<and> (\<exists>e \<in> set [assistant faucet_text, assistant list_item_text]. \<exists>t.
         etype e = AssistantMessage \<and> etext e = Some t \<and> \<not> isLikelyListItem t
         \<and> detectBlocker t True = Some faucet_blocker)
   \<and> checkEventsForBlocker [assistant list_item_text, assistant list_item_text] 1 = None"
proof -
  have found: "checkEventsForBlocker [assistant faucet_text, assistant list_item_text] 2 = Some faucet_blocker"
    by (rule skipped_list_item)
  have source: "\<exists>e \<in> set [assistant faucet_text, assistant list_item_text]. \<exists>t.
         etype e = AssistantMessage \<and> etext e = Some t \<and> \<not> isLikelyListItem t
         \<and> detectBlocker t True = Some faucet_blocker"
    using list_items_never_promoted [of "[assistant faucet_text, assistant list_item_text]" 2 faucet_blocker]
      found by blast
  have "\<forall>e \<in> set [assistant list_item_text, assistant list_item_text]. \<forall>t.
          etext e = Some t \<longrightarrow> isLikelyListItem t"
    by (simp add: assistant_def list_item_is_list)
  then have none: "checkEventsForBlocker [assistant list_item_text, assistant list_item_text] 1 = None"
    using list_items_never_promoted [of "[assistant list_item_text, assistant list_item_text]" 1 faucet_blocker]
    by blast
  from found source none list_item_is_list show ?thesis by blast
qed

text \<open>
  C5. Router paths, as the code has them. When the Bubble lookup succeeds: if the session is
  live and takes the input, \<^verbatim>\<open>handleBubbleReply\<close> forwards the reply text to that session,
  confirms, returns \<open>handled_directly\<close> and forces no token; otherwise (the session is not
  live, or it is live and \<^verbatim>\<open>sendInput\<close> fails) it forces the bubble's stored resume token
  for the chat, and no other, and returns \<open>route_to_dydo\<close> with the resume request that names
  this token. The text of the original message plays no part.
\<close>

theorem bubble_reply_paths:
  assumes "isReplyToBubble env (chatId p) (replyToMessageId p) = Some (session, bubble)"
  shows "(getSession env session \<and> sendInput env session (replyText p) \<longrightarrow>
            fst (handleBubbleReply env p) = handled_directly
            \<and> sent_inputs (snd (handleBubbleReply env p)) = [(session, replyText p)]
            \<and> forced_tokens (snd (handleBubbleReply env p)) = [])
       \<and> (\<not> (getSession env session \<and> sendInput env session (replyText p)) \<longrightarrow>
            fst (handleBubbleReply env p) =
              route_to_dydo (resume_request p (bubbleResumeToken bubble) (bubbleProjectName bubble))
            \<and> forced_tokens (snd (handleBubbleReply env p)) =
                [(bubbleResumeToken bubble, String_of (chatId p))]
            \<and> str_includes (resume_request p (bubbleResumeToken bubble) (bubbleProjectName bubble))
                (asc ''- resumeToken: '' @ [34] @ bubbleResumeToken bubble @ [34]))
       \<and> (\<not> getSession env session \<longrightarrow> sent_inputs (snd (handleBubbleReply env p)) = [])
       \<and> handleBubbleReply env (p\<lparr>originalMessageText := other\<rparr>) = handleBubbleReply env p"
proof -
  have direct: "getSession env session \<and> sendInput env session (replyText p) \<longrightarrow>
            fst (handleBubbleReply env p) = handled_directly
            \<and> sent_inputs (snd (handleBubbleReply env p)) = [(session, replyText p)]
            \<and> forced_tokens (snd (handleBubbleReply env p)) = []"
    using assms by (simp add: handleBubbleReply_def log_command_def)
  have route: "\<not> (getSession env session \<and> sendInput env session (replyText p)) \<longrightarrow>
            fst (handleBubbleReply env p) =
              route_to_dydo (resume_request p (bubbleResumeToken bubble) (bubbleProjectName bubble))
            \<and> forced_tokens (snd (handleBubbleReply env p)) =
                [(bubbleResumeToken bubble, String_of (chatId p))]"
    using assms by (simp add: handleBubbleReply_def log_command_def)
  have not_live: "\<not> getSession env session \<longrightarrow> sent_inputs (snd (handleBubbleReply env p)) = []"
    using assms by (simp add: handleBubbleReply_def log_command_def)
  have same: "handleBubbleReply env (p\<lparr>originalMessageText := other\<rparr>) = handleBubbleReply env p"
    using assms
    by (simp add: handleBubbleReply_def log_command_def resume_request_def message_thread_id_def)
  from direct route not_live same resume_request_names_token show ?thesis by blast
qed

theorem bubble_reply_paths_witness:
  "fst (handleBubbleReply accepting_env example_reply) = handled_directly
   \<and> forced_tokens (snd (handleBubbleReply accepting_env example_reply)) = []
   \<and> getSession refusing_env (asc ''session-1'')
   \<and> forced_tokens (snd (handleBubbleReply refusing_env example_reply)) =
       [(asc ''123e4567-e89b-12d3-a456-426614174000'', asc ''42'')]
   \<and> str_includes (resume_request example_reply (bubbleResumeToken example_bubble) (bubbleProjectName example_bubble))
       (asc ''- resumeToken: '' @ [34] @ asc ''123e4567-e89b-12d3-a456-426614174000'' @ [34])"
proof -
  have accepting: "isReplyToBubble accepting_env (chatId example_reply) (replyToMessageId example_reply) =
      Some (asc ''session-1'', example_bubble)"
    by (simp add: accepting_env_def)
  have refusing: "isReplyToBubble refusing_env (chatId example_reply) (replyToMessageId example_reply) =
      Some (asc ''session-1'', example_bubble)"
    by (simp add: refusing_env_def)
  have chat: "String_of (chatId example_reply) = asc ''42''"
    by (simp add: example_reply_def number_string_def digits.simps asc_def)
  show ?thesis
    using bubble_reply_paths [OF accepting, of None] bubble_reply_paths [OF refusing, of None]
    by (simp add: accepting_env_def refusing_env_def chat) (simp add: example_bubble_def)
qed

text \<open>The claim as the spec has it fails where a live session refuses the input.\<close>

theorem live_session_counterexample:
  "isReplyToBubble refusing_env (chatId example_reply) (replyToMessageId example_reply) =
     Some (asc ''session-1'', example_bubble)
   \<and> getSession refusing_env (asc ''session-1'')
   \<and> fst (handleBubbleReply refusing_env example_reply) \<noteq> handled_directly
   \<and> forced_tokens (snd (handleBubbleReply refusing_env example_reply)) \<noteq> []"
  by (simp add: handleBubbleReply_def refusing_env_def log_command_def)

text \<open>
  C6. Failure of the oracle. When the oracle throws, \<^verbatim>\<open>assessBlocker\<close> returns the fallback
  assessment (a real blocker, confidence 0.5, a reasoning that names the failure) and
  \<^verbatim>\<open>checkForRealtimeIntervention\<close> returns \<open>intervened = False\<close>; whatever the oracle does,
  neither of them throws.
\<close>

theorem oracle_failure_handled:
  "(invoke (buildContextSummary blocker events status) = Inl err \<longrightarrow>
      assessBlocker_with invoke blocker events status =
        Inr \<lparr>isRealBlocker = True, confidence = 0.5,
             reasoning = asc ''Assessment failed, defaulting to pattern matching result'',
             canAutoHandle = None, autoResponse = None\<rparr>)
   \<and> (\<exists>assessment. assessBlocker_with invoke blocker events status = Inr assessment)
   \<and> (etype event = AssistantMessage \<and> etext event = Some t \<and> t \<noteq> []
        \<and> detectBlocker t False = Some suspected
        \<and> decide (buildInterventionContext suspected t sessionContext) = Inl err \<longrightarrow>
      checkForRealtimeIntervention_with decide event sessionContext =
        Inr \<lparr>intervened = False, response = None,
             interventionReasoning = asc ''Intervention assessment failed, escalating to user''\<rparr>)
   \<and> (\<exists>result. checkForRealtimeIntervention_with decide event sessionContext = Inr result)"
proof -
  have level2: "invoke (buildContextSummary blocker events status) = Inl err \<longrightarrow>
      assessBlocker_with invoke blocker events status =
        Inr \<lparr>isRealBlocker = True, confidence = 0.5,
             reasoning = asc ''Assessment failed, defaulting to pattern matching result'',
             canAutoHandle = None, autoResponse = None\<rparr>"
    by (simp add: assessBlocker_with_def assessment_fallback_def)
  have level2_total: "\<exists>assessment. assessBlocker_with invoke blocker events status = Inr assessment"
    by (simp add: assessBlocker_with_def split: sum.split)
  have level3: "etype event = AssistantMessage \<and> etext event = Some t \<and> t \<noteq> []
        \<and> detectBlocker t False = Some suspected
        \<and> decide (buildInterventionContext suspected t sessionContext) = Inl err \<longrightarrow>
      checkForRealtimeIntervention_with decide event sessionContext =
        Inr \<lparr>intervened = False, response = None,
             interventionReasoning = asc ''Intervention assessment failed, escalating to user''\<rparr>"
    by (simp add: checkForRealtimeIntervention_with_def askDyDoForIntervention_with_def has_text_def
        template_string_def intervention_fallback_def)
  have level3_total: "\<exists>result. checkForRealtimeIntervention_with decide event sessionContext = Inr result"
    by (simp add: checkForRealtimeIntervention_with_def askDyDoForIntervention_with_def
        split: sum.split option.split)
  from level2 level2_total level3 level3_total show ?thesis by blast
qed

theorem oracle_failure_handled_witness:
  "failing_oracle (buildContextSummary faucet_blocker [assistant faucet_text] (asc ''done'')) =
     Inl (JsError (asc ''network unreachable''))
   \<and> assessBlocker_with failing_oracle faucet_blocker [assistant faucet_text] (asc ''done'') =
       Inr \<lparr>isRealBlocker = True, confidence = 0.5,
            reasoning = asc ''Assessment failed, defaulting to pattern matching result'',
            canAutoHandle = None, autoResponse = None\<rparr>
   \<and> detectBlocker faucet_text False = Some faucet_blocker
   \<and> checkForRealtimeIntervention_with failing_oracle (assistant faucet_text) example_context =
       Inr \<lparr>intervened = False, response = None,
            interventionReasoning = asc ''Intervention assessment failed, escalating to user''\<rparr>"
  using oracle_failure_handled [of failing_oracle faucet_blocker "[assistant faucet_text]" "asc ''done''"
      "JsError (asc ''network unreachable'')" "assistant faucet_text" faucet_text faucet_blocker
      failing_oracle example_context]
  by (simp add: failing_oracle_def faucet_detect faucet_nonempty assistant_def)

text \<open>
  C7. The Signal Filter. Every text is a sequence of fenced blocks and a tail: each block is
  opened by the first fence after the block before it and closed by the first fence after
  the opening one, and in the tail no fence is followed by another. The filtered text is
  the text without its blocks, and then without the table lines of what is left. A fence
  that no other fence follows opens no block, so the tail is filtered as it stands.

  Every field of a \<^verbatim>\<open>BlockerInfo\<close> that \<^verbatim>\<open>detectBlocker\<close> returns is computed from the
  filtered text, which is kept as \<open>lastMessage\<close> and holds no table line and no fenced block.
  Two texts that differ only inside their blocks and in their table lines give the same
  \<^verbatim>\<open>BlockerInfo\<close>. Of the unfiltered text only the length is read, by the guard that refuses
  a text under 20 code units.
\<close>

theorem blocker_from_filtered_text:
  "(detectBlocker t ended = Some b \<longrightarrow>
      lastMessage b = cleanText t
      \<and> matchedPatterns b = matched (scan BLOCKER_PATTERNS (cleanText t))
      \<and> reason b = extractBlockerReason (cleanText t) (primaryCategory (scan BLOCKER_PATTERNS (cleanText t)))
      \<and> extractedContext b =
          (if extracted (scan BLOCKER_PATTERNS (cleanText t)) = [] then None
           else Some (extracted (scan BLOCKER_PATTERNS (cleanText t))))
      \<and> (\<forall>l \<in> set (split_on 10 (lastMessage b)). \<not> is_table_line l)
      \<and> \<not> test code_fence (lastMessage b))
   \<and> (cleanText t = cleanText t' \<and> detectBlocker t ended = Some b \<and> detectBlocker t' ended' = Some b'
        \<longrightarrow> b = b')
   \<and> (cleanText t = cleanText t' \<and> 20 \<le> length t \<and> 20 \<le> length t'
        \<longrightarrow> detectBlocker t ended = detectBlocker t' ended)
   \<and> (\<exists>bs tail. t = with_blocks bs tail \<and> blocks_ok bs \<and> \<not> has_fenced_block tail)
   \<and> (blocks_ok bs \<and> \<not> has_fenced_block tail \<longrightarrow>
        cleanText (with_blocks bs tail) =
          join [10] (filter (\<lambda>l. \<not> startsWith (trim l) (asc ''|'') \<and> \<not> str_includes l (asc ''|---''))
                       (split_on 10 (without_blocks bs tail))))
   \<and> (blocks_ok bs \<and> \<not> has_fenced_block tail \<and> blocks_ok bs' \<and> \<not> has_fenced_block tail'
        \<and> filter (\<lambda>l. \<not> startsWith (trim l) (asc ''|'') \<and> \<not> str_includes l (asc ''|---''))
              (split_on 10 (without_blocks bs tail)) =
            filter (\<lambda>l. \<not> startsWith (trim l) (asc ''|'') \<and> \<not> str_includes l (asc ''|---''))
              (split_on 10 (without_blocks bs' tail'))
        \<and> detectBlocker (with_blocks bs tail) ended = Some b
        \<and> detectBlocker (with_blocks bs' tail') ended' = Some b'
        \<longrightarrow> b = b')"
proof -
  let ?kept = "\<lambda>l. \<not> startsWith (trim l) (asc ''|'') \<and> \<not> str_includes l (asc ''|---'')"
  have fields: "detectBlocker t ended = Some b \<longrightarrow>
      lastMessage b = cleanText t
      \<and> matchedPatterns b = matched (scan BLOCKER_PATTERNS (cleanText t))
      \<and> reason b = extractBlockerReason (cleanText t) (primaryCategory (scan BLOCKER_PATTERNS (cleanText t)))
      \<and> extractedContext b =
          (if extracted (scan BLOCKER_PATTERNS (cleanText t)) = [] then None
           else Some (extracted (scan BLOCKER_PATTERNS (cleanText t))))"
    by (auto simp: detectBlocker_def Let_def split: if_splits)
  then have lines: "detectBlocker t ended = Some b \<longrightarrow>
      (\<forall>l \<in> set (split_on 10 (lastMessage b)). \<not> is_table_line l)"
    using cleanText_lines [of _ t] by auto
  from fields have no_block: "detectBlocker t ended = Some b \<longrightarrow> \<not> test code_fence (lastMessage b)"
    using cleanText_no_code_fence [of t] by auto
  have same: "cleanText x = cleanText y \<and> detectBlocker x e = Some b \<and> detectBlocker y e' = Some b'
        \<longrightarrow> b = b'" for x y e e'
    by (auto simp: detectBlocker_def Let_def split: if_splits)
  have guard: "cleanText t = cleanText t' \<and> 20 \<le> length t \<and> 20 \<le> length t'
        \<longrightarrow> detectBlocker t ended = detectBlocker t' ended"
    by (auto simp: detectBlocker_def Let_def)
  have made: "\<exists>bs tail. t = with_blocks bs tail \<and> blocks_ok bs \<and> \<not> has_fenced_block tail"
    by (rule blocks_exist)
  have kept: "(\<lambda>l. \<not> is_table_line l) = ?kept"
    by (simp add: is_table_line_def)
  have filtered: "blocks_ok xs \<and> \<not> has_fenced_block r \<longrightarrow>
        cleanText (with_blocks xs r) = join [10] (filter ?kept (split_on 10 (without_blocks xs r)))" for xs r
    using cleanText_blocks [of xs r] by (simp only: kept) blast
  have "blocks_ok bs \<and> \<not> has_fenced_block tail \<and> blocks_ok bs' \<and> \<not> has_fenced_block tail'
        \<and> filter ?kept (split_on 10 (without_blocks bs tail)) = filter ?kept (split_on 10 (without_blocks bs' tail'))
        \<longrightarrow> cleanText (with_blocks bs tail) = cleanText (with_blocks bs' tail')"
    using filtered [of bs tail] filtered [of bs' tail'] by auto
  then have outside: "blocks_ok bs \<and> \<not> has_fenced_block tail \<and> blocks_ok bs' \<and> \<not> has_fenced_block tail'
        \<and> filter ?kept (split_on 10 (without_blocks bs tail)) = filter ?kept (split_on 10 (without_blocks bs' tail'))
        \<and> detectBlocker (with_blocks bs tail) ended = Some b
        \<and> detectBlocker (with_blocks bs' tail') ended' = Some b'
        \<longrightarrow> b = b'"
    using same [of "with_blocks bs tail" "with_blocks bs' tail'" ended ended'] by blast
  from fields lines no_block same [of t t' ended ended'] guard made filtered [of bs tail] outside
  show ?thesis by blast
qed

theorem blocker_from_filtered_text_witness:
  "with_blocks fenced_blocks [] = fenced_text
   \<and> blocks_ok fenced_blocks
   \<and> \<not> has_fenced_block []
   \<and> with_blocks [] faucet_text = faucet_text
   \<and> blocks_ok []
   \<and> \<not> has_fenced_block faucet_text
   \<and> cleanText fenced_text =
       join [10] (filter (\<lambda>l. \<not> startsWith (trim l) (asc ''|'') \<and> \<not> str_includes l (asc ''|---''))
                    (split_on 10 (without_blocks fenced_blocks [])))
   \<and> filter (\<lambda>l. \<not> startsWith (trim l) (asc ''|'') \<and> \<not> str_includes l (asc ''|---''))
         (split_on 10 (without_blocks fenced_blocks [])) = [faucet_text]
   \<and> filter (\<lambda>l. \<not> startsWith (trim l) (asc ''|'') \<and> \<not> str_includes l (asc ''|---''))
         (split_on 10 (without_blocks [] faucet_text)) = [faucet_text]
   \<and> 20 \<le> length fenced_text
   \<and> 20 \<le> length faucet_text
   \<and> detectBlocker fenced_text False = detectBlocker faucet_text False
   \<and> detectBlocker fenced_text False = Some faucet_blocker
   \<and> test code_fence fenced_text
   \<and> list_ex is_table_line (split_on 10 fenced_text)
   \<and> cleanText fenced_text = cleanText faucet_text
   \<and> detectBlocker faucet_text True = Some faucet_blocker
   \<and> lastMessage faucet_blocker = cleanText fenced_text
   \<and> \<not> list_ex is_table_line (split_on 10 (lastMessage faucet_blocker))
   \<and> \<not> test code_fence (lastMessage faucet_blocker)"
proof -
  let ?kept = "\<lambda>l. \<not> startsWith (trim l) (asc ''|'') \<and> \<not> str_includes l (asc ''|---'')"
  note filtered = blocker_from_filtered_text [where t = fenced_text and ended = False and b = faucet_blocker
      and t' = faucet_text and ended' = True and b' = faucet_blocker
      and bs = fenced_blocks and tail = "[]" and bs' = "[]" and tail' = faucet_text]
  have whole: "with_blocks fenced_blocks [] = fenced_text"
    by (simp add: fenced_blocks_def fenced_text_def fence_def)
  have ok: "blocks_ok fenced_blocks"
    by (simp add: blocks_ok_def first_fence_after_def fenced_blocks_def faucet_text_def fence_def asc_def)
  have tail: "\<not> has_fenced_block faucet_text"
    by (simp add: faucet_text_def fence_def asc_def)
  have kept: "filter ?kept (split_on 10 (without_blocks fenced_blocks [])) = [faucet_text]"
    by (simp add: fenced_blocks_def faucet_text_def trim_def is_space_def asc_def)
  have kept': "filter ?kept (split_on 10 (without_blocks [] faucet_text)) = [faucet_text]"
    by (simp add: faucet_text_def trim_def is_space_def asc_def)
  have found: "detectBlocker fenced_text False = Some faucet_blocker"
    by (rule fenced_detect)
  have long: "20 \<le> length fenced_text" "20 \<le> length faucet_text"
    by (simp_all add: fenced_length faucet_length)
  have cleaned: "cleanText fenced_text = cleanText faucet_text"
    by (simp add: fenced_clean faucet_clean)
  from filtered ok have "cleanText (with_blocks fenced_blocks []) =
      join [10] (filter ?kept (split_on 10 (without_blocks fenced_blocks [])))"
    by simp
  then have clean: "cleanText fenced_text =
      join [10] (filter ?kept (split_on 10 (without_blocks fenced_blocks [])))"
    by (simp only: whole)
  from filtered long cleaned have guard: "detectBlocker fenced_text False = detectBlocker faucet_text False"
    by blast
  from filtered found have "\<forall>l \<in> set (split_on 10 (lastMessage faucet_blocker)). \<not> is_table_line l"
    by blast
  then have lines: "\<not> list_ex is_table_line (split_on 10 (lastMessage faucet_blocker))"
    by (simp add: list_ex_iff)
  from filtered found have no_block: "\<not> test code_fence (lastMessage faucet_blocker)"
    by blast
  have rest: "detectBlocker fenced_text False = Some faucet_blocker
      \<and> test code_fence fenced_text
      \<and> list_ex is_table_line (split_on 10 fenced_text)
      \<and> cleanText fenced_text = cleanText faucet_text
      \<and> detectBlocker faucet_text True = Some faucet_blocker
      \<and> lastMessage faucet_blocker = cleanText fenced_text"
    by (simp add: fenced_detect faucet_detect fenced_clean faucet_clean fenced_has_block fenced_table_line)
      (simp add: faucet_blocker_def)
  have empty: "\<not> has_fenced_block []" "with_blocks [] faucet_text = faucet_text" "blocks_ok []"
    by (simp_all add: blocks_ok_def)
  from whole ok empty tail clean kept kept' long guard rest lines no_block show ?thesis by blast
qed

text \<open>
  C8. Fallback text extraction. The parser reads the first match of each pattern: the token
  is the 36 code units (\<^verbatim>\<open>a-f\<close>, digits and \<^verbatim>\<open>-\<close>) after the first \<^verbatim>\<open>claude --resume \<close>, the
  project name is what follows the first \<^verbatim>\<open>ctx:\<close> and its white space up to the end of the
  line, trimmed. So in a stored message where no \<^verbatim>\<open>claude --resume \<close> comes before the resume
  hint of the spec and no \<^verbatim>\<open>ctx:\<close> comes before the line \<^verbatim>\<open>ctx: my-project @main\<close>, whatever
  else is around them, it returns the token and the project name of the spec.
\<close>

theorem fallback_text_extraction:
  "(t = p @ asc ''claude --resume '' @ token @ q
      \<and> \<not> str_includes p (asc ''claude --resume '')
      \<and> length token = 36
      \<and> (\<forall>c \<in> set token. (97 \<le> c \<and> c \<le> 102) \<or> (48 \<le> c \<and> c \<le> 57) \<or> c = 45)
      \<and> t = a @ asc ''ctx:'' @ w @ name @ b
      \<and> \<not> str_includes a (asc ''ctx:'')
      \<and> (\<forall>c \<in> set w. is_space c) \<and> name \<noteq> [] \<and> \<not> is_space (hd name) \<and> 10 \<notin> set name
      \<and> (b = [] \<or> hd b = 10)
    \<longrightarrow> parseResumeTokenFromMessage (Some t) = Some \<lparr>resumeToken = token, projectName = trim name\<rparr>)
   \<and> (t = p @ asc ''claude --resume 123e4567-e89b-12d3-a456-426614174000'' @ q
      \<and> \<not> str_includes p (asc ''claude --resume '')
      \<and> t = a @ asc ''ctx: my-project @main'' @ b
      \<and> \<not> str_includes a (asc ''ctx:'')
      \<and> (b = [] \<or> hd b = 10)
    \<longrightarrow> parseResumeTokenFromMessage (Some t) =
          Some \<lparr>resumeToken = asc ''123e4567-e89b-12d3-a456-426614174000'',
                projectName = asc ''my-project @main''\<rparr>)"
proof -
  have first: "parseResumeTokenFromMessage (Some t) = Some \<lparr>resumeToken = token, projectName = trim name\<rparr>"
    if hint: "t = p @ asc ''claude --resume '' @ token @ q"
      and before_hint: "\<not> str_includes p (asc ''claude --resume '')"
      and token: "length token = 36"
        "\<forall>c \<in> set token. (97 \<le> c \<and> c \<le> 102) \<or> (48 \<le> c \<and> c \<le> 57) \<or> c = 45"
      and line: "t = a @ asc ''ctx:'' @ w @ name @ b"
      and before_line: "\<not> str_includes a (asc ''ctx:'')"
      and name: "\<forall>c \<in> set w. is_space c" "name \<noteq> []" "\<not> is_space (hd name)" "10 \<notin> set name"
        "b = [] \<or> hd b = 10"
    for t p token q a w name b
  proof -
    have "match_group1 resume_pattern t = Some (Some token)"
      unfolding hint using before_hint token by (rule resume_hint_first)
    moreover have "match_group1 ctx_pattern t = Some (Some name)"
      unfolding line using before_line name by (rule ctx_line_first)
    moreover have "t \<noteq> []" by (simp add: hint asc_def)
    ultimately show ?thesis
      by (simp add: parseResumeTokenFromMessage_def)
  qed
  have example: "parseResumeTokenFromMessage (Some t) =
      Some \<lparr>resumeToken = asc ''123e4567-e89b-12d3-a456-426614174000'', projectName = asc ''my-project @main''\<rparr>"
    if hint: "t = p @ asc ''claude --resume 123e4567-e89b-12d3-a456-426614174000'' @ q"
      and before_hint: "\<not> str_includes p (asc ''claude --resume '')"
      and line: "t = a @ asc ''ctx: my-project @main'' @ b"
      and before_line: "\<not> str_includes a (asc ''ctx:'')"
      and ends: "b = [] \<or> hd b = 10"
  proof -
    have "t = p @ asc ''claude --resume '' @ asc ''123e4567-e89b-12d3-a456-426614174000'' @ q"
      by (simp add: hint asc_def)
    moreover have "length (asc ''123e4567-e89b-12d3-a456-426614174000'') = 36"
      by (simp add: asc_def)
    moreover have "\<forall>c \<in> set (asc ''123e4567-e89b-12d3-a456-426614174000'').
        (97 \<le> c \<and> c \<le> 102) \<or> (48 \<le> c \<and> c \<le> 57) \<or> c = 45"
      by (simp add: asc_def)
    moreover have "t = a @ asc ''ctx:'' @ asc '' '' @ asc ''my-project @main'' @ b"
      by (simp add: line asc_def)
    moreover have "\<forall>c \<in> set (asc '' ''). is_space c"
      by (simp add: asc_def is_space_def)
    moreover have "asc ''my-project @main'' \<noteq> []" "\<not> is_space (hd (asc ''my-project @main''))"
      "10 \<notin> set (asc ''my-project @main'')"
      by (simp_all add: asc_def is_space_def)
    moreover have "trim (asc ''my-project @main'') = asc ''my-project @main''"
      by (simp add: trim_def asc_def is_space_def)
    ultimately show ?thesis
      using first [of t p "asc ''123e4567-e89b-12d3-a456-426614174000''" q a "asc '' ''" "asc ''my-project @main''" b]
        before_hint before_line ends by simp
  qed
  from first [of t p token q a w name b] example show ?thesis by blast
qed

theorem fallback_text_extraction_witness:
  "resume_message = asc ''...'' @ asc ''claude --resume 123e4567-e89b-12d3-a456-426614174000''
      @ (asc ''...'' @ [10] @ asc ''ctx: my-project @main'')
   \<and> \<not> str_includes (asc ''...'') (asc ''claude --resume '')
   \<and> resume_message = (asc ''...claude --resume 123e4567-e89b-12d3-a456-426614174000...'' @ [10])
      @ asc ''ctx: my-project @main'' @ []
   \<and> \<not> str_includes (asc ''...claude --resume 123e4567-e89b-12d3-a456-426614174000...'' @ [10]) (asc ''ctx:'')
   \<and> parseResumeTokenFromMessage (Some resume_message) =
       Some \<lparr>resumeToken = asc ''123e4567-e89b-12d3-a456-426614174000'', projectName = asc ''my-project @main''\<rparr>
   \<and> parseResumeTokenFromMessage (Some resume_message_ctx_first) =
       Some \<lparr>resumeToken = asc ''123e4567-e89b-12d3-a456-426614174000'', projectName = asc ''my-project @main''\<rparr>
   \<and> earlier_hint_message = [] @ asc ''claude --resume '' @ asc ''00000000-0000-0000-0000-000000000000''
      @ (10 # resume_message)
   \<and> earlier_hint_message =
      (asc ''claude --resume 00000000-0000-0000-0000-000000000000'' @ [10]
         @ asc ''...claude --resume 123e4567-e89b-12d3-a456-426614174000...'' @ [10])
      @ asc ''ctx:'' @ asc '' '' @ asc ''my-project @main'' @ []
   \<and> parseResumeTokenFromMessage (Some earlier_hint_message) =
       Some \<lparr>resumeToken = asc ''00000000-0000-0000-0000-000000000000'',
             projectName = trim (asc ''my-project @main'')\<rparr>"
proof -
  have hint: "resume_message = asc ''...'' @ asc ''claude --resume 123e4567-e89b-12d3-a456-426614174000''
      @ (asc ''...'' @ [10] @ asc ''ctx: my-project @main'')"
    by (simp add: resume_message_def asc_def)
  have before_hint: "\<not> str_includes (asc ''...'') (asc ''claude --resume '')"
    by (simp add: asc_def)
  have line: "resume_message = (asc ''...claude --resume 123e4567-e89b-12d3-a456-426614174000...'' @ [10])
      @ asc ''ctx: my-project @main'' @ []"
    by (simp add: resume_message_def)
  have before_line:
    "\<not> str_includes (asc ''...claude --resume 123e4567-e89b-12d3-a456-426614174000...'' @ [10]) (asc ''ctx:'')"
    by (simp add: asc_def)
  have hint': "resume_message_ctx_first = (asc ''ctx: my-project @main'' @ [10] @ asc ''...'')
      @ asc ''claude --resume 123e4567-e89b-12d3-a456-426614174000'' @ asc ''...''"
    by (simp add: resume_message_ctx_first_def asc_def)
  have before_hint': "\<not> str_includes (asc ''ctx: my-project @main'' @ [10] @ asc ''...'') (asc ''claude --resume '')"
    by (simp add: asc_def)
  have line': "resume_message_ctx_first = [] @ asc ''ctx: my-project @main''
      @ (10 # asc ''...claude --resume 123e4567-e89b-12d3-a456-426614174000...'')"
    by (simp add: resume_message_ctx_first_def)
  have before_line': "\<not> str_includes [] (asc ''ctx:'')"
    by (simp add: asc_def)
  have hint'': "earlier_hint_message = [] @ asc ''claude --resume '' @ asc ''00000000-0000-0000-0000-000000000000''
      @ (10 # resume_message)"
    by (simp add: earlier_hint_message_def asc_def)
  have before_hint'': "\<not> str_includes [] (asc ''claude --resume '')"
    by (simp add: asc_def)
  have zeros: "length (asc ''00000000-0000-0000-0000-000000000000'') = 36"
    "\<forall>c \<in> set (asc ''00000000-0000-0000-0000-000000000000'').
        (97 \<le> c \<and> c \<le> 102) \<or> (48 \<le> c \<and> c \<le> 57) \<or> c = 45"
    by (simp_all add: asc_def)
  have line'': "earlier_hint_message =
      (asc ''claude --resume 00000000-0000-0000-0000-000000000000'' @ [10]
         @ asc ''...claude --resume 123e4567-e89b-12d3-a456-426614174000...'' @ [10])
      @ asc ''ctx:'' @ asc '' '' @ asc ''my-project @main'' @ []"
    by (simp add: earlier_hint_message_def resume_message_def asc_def)
  have before_line'': "\<not> str_includes
      (asc ''claude --resume 00000000-0000-0000-0000-000000000000'' @ [10]
         @ asc ''...claude --resume 123e4567-e89b-12d3-a456-426614174000...'' @ [10]) (asc ''ctx:'')"
    by (simp add: asc_def)
  have name: "\<forall>c \<in> set (asc '' ''). is_space c" "asc ''my-project @main'' \<noteq> []"
    "\<not> is_space (hd (asc ''my-project @main''))" "10 \<notin> set (asc ''my-project @main'')"
    by (simp_all add: asc_def is_space_def)
  have "parseResumeTokenFromMessage (Some resume_message) =
       Some \<lparr>resumeToken = asc ''123e4567-e89b-12d3-a456-426614174000'', projectName = asc ''my-project @main''\<rparr>"
    using fallback_text_extraction [where t = resume_message and p = "asc ''...''"
        and q = "asc ''...'' @ [10] @ asc ''ctx: my-project @main''"
        and a = "asc ''...claude --resume 123e4567-e89b-12d3-a456-426614174000...'' @ [10]" and b = "[]"]
      hint before_hint line before_line by blast
  moreover have "parseResumeTokenFromMessage (Some resume_message_ctx_first) =
       Some \<lparr>resumeToken = asc ''123e4567-e89b-12d3-a456-426614174000'', projectName = asc ''my-project @main''\<rparr>"
    using fallback_text_extraction [where t = resume_message_ctx_first
        and p = "asc ''ctx: my-project @main'' @ [10] @ asc ''...''" and q = "asc ''...''"
        and a = "[]" and b = "10 # asc ''...claude --resume 123e4567-e89b-12d3-a456-426614174000...''"]
      hint' before_hint' line' before_line' by simp
  moreover have "parseResumeTokenFromMessage (Some earlier_hint_message) =
       Some \<lparr>resumeToken = asc ''00000000-0000-0000-0000-000000000000'',
             projectName = trim (asc ''my-project @main'')\<rparr>"
    using fallback_text_extraction [where t = earlier_hint_message and p = "[]"
        and token = "asc ''00000000-0000-0000-0000-000000000000''" and q = "10 # resume_message"
        and a = "asc ''claude --resume 00000000-0000-0000-0000-000000000000'' @ [10]
          @ asc ''...claude --resume 123e4567-e89b-12d3-a456-426614174000...'' @ [10]"
        and w = "asc '' ''" and name = "asc ''my-project @main''" and b = "[]"]
      hint'' before_hint'' zeros line'' before_line'' name by blast
  ultimately show ?thesis using hint before_hint line before_line hint'' line'' by blast
qed

text \<open>
  C8 as the spec states it fails for a message that holds the resume hint and the
  \<^verbatim>\<open>ctx:\<close> line of the spec after another \<^verbatim>\<open>ctx:\<close> line, or after another resume hint: the
  parser returns the project name, or the token, that comes first.
\<close>

theorem earlier_hint_counterexample:
  "str_includes other_ctx_message (asc ''claude --resume 123e4567-e89b-12d3-a456-426614174000'')
   \<and> asc ''ctx: my-project @main'' \<in> set (split_on 10 other_ctx_message)
   \<and> parseResumeTokenFromMessage (Some other_ctx_message) =
       Some \<lparr>resumeToken = asc ''123e4567-e89b-12d3-a456-426614174000'', projectName = asc ''other''\<rparr>
   \<and> parseResumeTokenFromMessage (Some other_ctx_message) \<noteq>
       Some \<lparr>resumeToken = asc ''123e4567-e89b-12d3-a456-426614174000'', projectName = asc ''my-project @main''\<rparr>
   \<and> str_includes earlier_hint_message (asc ''claude --resume 123e4567-e89b-12d3-a456-426614174000'')
   \<and> asc ''ctx: my-project @main'' \<in> set (split_on 10 earlier_hint_message)
   \<and> parseResumeTokenFromMessage (Some earlier_hint_message) =
       Some \<lparr>resumeToken = asc ''00000000-0000-0000-0000-000000000000'', projectName = asc ''my-project @main''\<rparr>
   \<and> parseResumeTokenFromMessage (Some earlier_hint_message) \<noteq>
       Some \<lparr>resumeToken = asc ''123e4567-e89b-12d3-a456-426614174000'', projectName = asc ''my-project @main''\<rparr>"
proof -
  have "str_includes other_ctx_message (asc ''claude --resume 123e4567-e89b-12d3-a456-426614174000'')"
    by (simp add: other_ctx_message_def resume_message_def asc_def)
  moreover have "asc ''ctx: my-project @main'' \<in> set (split_on 10 other_ctx_message)"
    by (simp add: other_ctx_message_def resume_message_def asc_def)
  moreover have "str_includes earlier_hint_message (asc ''claude --resume 123e4567-e89b-12d3-a456-426614174000'')"
    by (simp add: earlier_hint_message_def resume_message_def asc_def)
  moreover have "asc ''ctx: my-project @main'' \<in> set (split_on 10 earlier_hint_message)"
    by (simp add: earlier_hint_message_def resume_message_def asc_def)
  moreover have "asc ''other'' \<noteq> asc ''my-project @main''"
    by (simp add: asc_def)
  moreover have "asc ''00000000-0000-0000-0000-000000000000'' \<noteq> asc ''123e4567-e89b-12d3-a456-426614174000''"
    by (simp add: asc_def)
  ultimately show ?thesis
    by (simp add: other_ctx_parse earlier_hint_parse)
qed

text \<open>
  C9. The reason is at most 150 code units long; when the sentence it is taken from is
  longer, the reason is the first 147 code units of the sentence and three dots, 150 code
  units in all.
\<close>

theorem extractBlockerReason_bound:
  "length (extractBlockerReason t cat) \<le> 150 \<and>
   (\<forall>s. find has_blocker_keyword (sentences t) = Some s \<and> 150 < length (trim s) \<longrightarrow>
        extractBlockerReason t cat = take 147 (trim s) @ asc ''...'' \<and>
        length (extractBlockerReason t cat) = 150)"
proof (cases "find has_blocker_keyword (sentences t)")
  case None
  then show ?thesis by (simp add: extractBlockerReason_def canned_reason_length)
next
  case (Some s)
  then show ?thesis by (auto simp: extractBlockerReason_def Let_def asc_def)
qed

theorem extractBlockerReason_bound_witness:
  "find has_blocker_keyword (sentences long_sentence) = Some long_sentence
   \<and> 150 < length (trim long_sentence)
   \<and> extractBlockerReason long_sentence None = take 147 long_sentence @ asc ''...''
   \<and> length (extractBlockerReason long_sentence None) = 150"
  using extractBlockerReason_bound [of long_sentence None]
  by (simp add: long_sentence_found long_sentence_trim long_sentence_length asc_def)

text \<open>
  C10. A stored message with the resume hint and no project hint. The parser succeeds with
  the project name \<open>unknown\<close> and a token of 36 code units, and \<^verbatim>\<open>handleBubbleReply\<close> does
  not return \<open>not_bubble_reply\<close>.
\<close>

theorem token_without_project_hint:
  assumes "match_group1 resume_pattern t \<noteq> None"
    and "match_group1 ctx_pattern t = None"
    and "match_group1 header_pattern t = None"
  shows "(\<exists>token. length token = 36 \<and>
            parseResumeTokenFromMessage (Some t) = Some \<lparr>resumeToken = token, projectName = asc ''unknown''\<rparr>)
       \<and> (originalMessageText p = Some t \<longrightarrow> fst (handleBubbleReply env p) \<noteq> not_bubble_reply)"
proof -
  from assms(1) obtain c where c: "match_group1 resume_pattern t = Some c" by auto
  then obtain token where token: "c = Some token" "length token = 36"
    using resume_pattern_token by blast
  have "t \<noteq> []" using assms(1) resume_pattern_nonempty by auto
  then have parse: "parseResumeTokenFromMessage (Some t) = Some \<lparr>resumeToken = token, projectName = asc ''unknown''\<rparr>"
    using c token assms(2,3) by (simp add: parseResumeTokenFromMessage_def)
  then have "originalMessageText p = Some t \<longrightarrow> fst (handleBubbleReply env p) \<noteq> not_bubble_reply"
    by (simp add: handleBubbleReply_def split: option.split)
  then show ?thesis using parse token by blast
qed

theorem token_without_project_hint_witness:
  "match_group1 resume_pattern bare_resume_message \<noteq> None
   \<and> match_group1 ctx_pattern bare_resume_message = None
   \<and> match_group1 header_pattern bare_resume_message = None
   \<and> parseResumeTokenFromMessage (Some bare_resume_message) =
       Some \<lparr>resumeToken = asc ''123e4567-e89b-12d3-a456-426614174000'', projectName = asc ''unknown''\<rparr>
   \<and> fst (handleBubbleReply forgetful_env example_reply) \<noteq> not_bubble_reply"
proof -
  have hint: "match_group1 resume_pattern bare_resume_message \<noteq> None"
    by (simp add: bare_token)
  have original: "originalMessageText example_reply = Some bare_resume_message"
    by (simp add: example_reply_def)
  have parse: "parseResumeTokenFromMessage (Some bare_resume_message) =
      Some \<lparr>resumeToken = asc ''123e4567-e89b-12d3-a456-426614174000'', projectName = asc ''unknown''\<rparr>"
    by (simp add: parseResumeTokenFromMessage_def bare_token bare_no_ctx bare_no_header bare_nonempty)
  have "fst (handleBubbleReply forgetful_env example_reply) \<noteq> not_bubble_reply"
    using token_without_project_hint [OF hint bare_no_ctx bare_no_header, of example_reply forgetful_env]
      original by blast
  then show ?thesis using hint bare_no_ctx bare_no_header parse by blast
qed

end
